theory Spec2Isabelle
  imports Main
begin

section \<open>Strings\<close>

text \<open>
  A JavaScript string is modelled as a \<^typ>\<open>string\<close>: the list of its UTF-16 code units,
  for texts whose code units are all below 256 (Basic Latin and Latin-1). On this
  alphabet the functions below compute what the JavaScript built-ins of the same name
  compute.
\<close>

definition NL :: char where
  "NL = CHR 0x0A"

definition sq :: string where
  "sq = [CHR 0x27]"

text \<open>\<open>WhiteSpace\<close> and \<open>LineTerminator\<close> code units below 256: TAB, LF, VT, FF, CR, SP, NBSP.\<close>

definition isWhite :: "char \<Rightarrow> bool" where
  "isWhite c = ((of_char c :: nat) \<in> {9, 10, 11, 12, 13, 32, 160})"

text \<open>\<open>\w\<close>: the characters \<open>A-Z a-z 0-9 _\<close>.\<close>

definition isWord :: "char \<Rightarrow> bool" where
  "isWord c = (let n = (of_char c :: nat) in
     (48 \<le> n \<and> n \<le> 57) \<or> (65 \<le> n \<and> n \<le> 90) \<or> n = 95 \<or> (97 \<le> n \<and> n \<le> 122))"

definition lowerChar :: "char \<Rightarrow> char" where
  "lowerChar c = (let n = (of_char c :: nat) in
     if (65 \<le> n \<and> n \<le> 90) \<or> (192 \<le> n \<and> n \<le> 222 \<and> n \<noteq> 215)
     then char_of (n + 32) else c)"

definition toLowerCase :: "string \<Rightarrow> string" where
  "toLowerCase s = map lowerChar s"

definition startsWith :: "string \<Rightarrow> string \<Rightarrow> bool" where
  "startsWith s p = (take (length p) s = p)"

primrec includes_str :: "string \<Rightarrow> string \<Rightarrow> bool" where
  "includes_str [] p = (p = [])"
| "includes_str (c # cs) p = (startsWith (c # cs) p \<or> includes_str cs p)"

definition trim :: "string \<Rightarrow> string" where
  "trim s = rev (dropWhile isWhite (rev (dropWhile isWhite s)))"

text \<open>
  \<open>s.split(sep)\<close> for a separator of one character: never empty; a trailing separator
  gives a last empty piece.
\<close>

primrec split_on :: "char \<Rightarrow> string \<Rightarrow> string list" where
  "split_on sep [] = [[]]"
| "split_on sep (c # cs) =
     (if c = sep then [] # split_on sep cs
      else (case split_on sep cs of [] \<Rightarrow> [[c]] | l # ls \<Rightarrow> (c # l) # ls))"

text \<open>\<open>xs.join(sep)\<close>.\<close>

fun join :: "string \<Rightarrow> string list \<Rightarrow> string" where
  "join sep [] = []"
| "join sep [x] = x"
| "join sep (x # y # ys) = x @ sep @ join sep (y # ys)"

text \<open>
  A template literal prints an absent (\<open>undefined\<close>) value as the text \<open>undefined\<close>.
\<close>

fun tpl :: "string option \<Rightarrow> string" where
  "tpl None = ''undefined''"
| "tpl (Some s) = s"

text \<open>Truthiness of an optional string: present and not empty.\<close>

fun truthy :: "string option \<Rightarrow> bool" where
  "truthy None = False"
| "truthy (Some s) = (s \<noteq> [])"

section \<open>Regular expressions\<close>

text \<open>
  The fragment of ECMAScript regular expressions the source uses: pattern characters,
  character classes (with \<open>\s\<close> and \<open>\w\<close>), sequence, ordered alternation, the greedy
  quantifiers \<open>?\<close> and \<open>*\<close> (\<open>r+\<close> is \<open>r\<close> followed by \<open>r*\<close>) and capturing groups. The
  matcher returns every way to match at the start of the input, in the order in which a
  backtracking matcher tries them; the head of the list is the match JavaScript reports.
\<close>

datatype citem = C char | WS | WordC

datatype re =
    Chr char
  | Cls bool "citem list"
  | Seq "re list"
  | Alt "re list"
  | Opt re
  | Star re
  | Cap nat re

text \<open>
  \<open>Canonicalize\<close> under the \<open>i\<close> flag (no \<open>u\<close> flag): the upper-case code unit. The three
  Latin-1 letters whose upper case lies outside Latin-1 or is not a single code unit
  (\<open>0xB5\<close>, \<open>0xDF\<close>, \<open>0xFF\<close>) keep a value no other code unit below 256 is mapped to.
\<close>

definition canon :: "bool \<Rightarrow> char \<Rightarrow> char" where
  "canon ci c = (let n = (of_char c :: nat) in
     if ci \<and> ((97 \<le> n \<and> n \<le> 122) \<or> (224 \<le> n \<and> n \<le> 254 \<and> n \<noteq> 247))
     then char_of (n - 32) else c)"

fun citem_has :: "bool \<Rightarrow> citem \<Rightarrow> char \<Rightarrow> bool" where
  "citem_has ci (C a) c = (canon ci a = canon ci c)"
| "citem_has ci WS c = isWhite c"
| "citem_has ci WordC c = isWord c"

fun rx :: "bool \<Rightarrow> re \<Rightarrow> (nat \<times> string) list \<times> string \<Rightarrow> ((nat \<times> string) list \<times> string) list" where
  "rx ci (Chr a) (caps, s) =
     (case s of [] \<Rightarrow> [] | c # cs \<Rightarrow> if canon ci a = canon ci c then [(caps, cs)] else [])"
| "rx ci (Cls neg items) (caps, s) =
     (case s of [] \<Rightarrow> []
      | c # cs \<Rightarrow> if (\<exists>i \<in> set items. citem_has ci i c) \<noteq> neg then [(caps, cs)] else [])"
| "rx ci (Seq []) st = [st]"
| "rx ci (Seq (r # rs)) st = concat (map (rx ci (Seq rs)) (rx ci r st))"
| "rx ci (Alt []) st = []"
| "rx ci (Alt (r # rs)) st = rx ci r st @ rx ci (Alt rs) st"
| "rx ci (Opt r) (caps, s) =
     filter (\<lambda>st'. length (snd st') < length s) (rx ci r (caps, s)) @ [(caps, s)]"
| "rx ci (Star r) (caps, s) =
     concat (map (\<lambda>st'. if length (snd st') < length s then rx ci (Star r) st' else [])
                 (rx ci r (caps, s))) @ [(caps, s)]"
| "rx ci (Cap n r) (caps, s) =
     map (\<lambda>st'. ((n, take (length s - length (snd st')) s) # fst st', snd st')) (rx ci r (caps, s))"

text \<open>The pattern for a literal text, and \<open>r+\<close>.\<close>

definition Str :: "string \<Rightarrow> re" where
  "Str s = Seq (map Chr s)"

definition Plus :: "re \<Rightarrow> re" where
  "Plus r = Seq [r, Star r]"

text \<open>
  A match object: the text skipped before the match, the matched text (\<open>match[0]\<close>), the
  captures (\<open>match[n]\<close> is the latest entry for \<open>n\<close>) and the text after the match.
\<close>

record rmatch =
  skipped :: string
  whole :: string
  groups :: "(nat \<times> string) list"
  remaining :: string

definition grp :: "rmatch \<Rightarrow> nat \<Rightarrow> string option" where
  "grp mt n = map_of (groups mt) n"

text \<open>The leftmost match: every start position is tried in turn, the end of the text included.\<close>

fun rx_search :: "bool \<Rightarrow> re \<Rightarrow> string \<Rightarrow> rmatch option" where
  "rx_search ci r s =
     (case rx ci r ([], s) of
        (caps, rest) # _ \<Rightarrow>
          Some \<lparr>skipped = [], whole = take (length s - length rest) s, groups = caps, remaining = rest\<rparr>
      | [] \<Rightarrow>
          (case s of [] \<Rightarrow> None
           | c # cs \<Rightarrow> map_option (\<lambda>mt. mt\<lparr>skipped := c # skipped mt\<rparr>) (rx_search ci r cs)))"

declare rx_search.simps [simp del]

text \<open>Every result of the matcher leaves a suffix of the input.\<close>


lemma rx_suffix:
  "st' \<in> set (rx ci r st) \<Longrightarrow> \<exists>p. snd st = p @ snd st'"
proof (induction ci r st arbitrary: st' rule: rx.induct)
  case (1 ci a caps s)
  then show ?case by (auto split: list.splits if_splits)
next
  case (2 ci neg items caps s)
  then show ?case by (auto split: list.splits if_splits)
next
  case (3 ci st)
  then show ?case by simp
next
  case (4 ci r rs st)
  then obtain mid where mid: "mid \<in> set (rx ci r st)" and st': "st' \<in> set (rx ci (Seq rs) mid)"
    by auto
  from "4.IH"(1) [OF mid] obtain p where p: "snd st = p @ snd mid" by blast
  from "4.IH"(2) [OF mid st'] obtain q where "snd mid = q @ snd st'" by blast
  with p show ?case by simp
next
  case (5 ci st)
  then show ?case by simp
next
  case (6 ci r rs st)
  then show ?case by (cases st') auto
next
  case (7 ci r caps s)
  then show ?case by (cases st') auto
next
  case (8 ci r caps s)
  show ?case
  proof (cases "st' = (caps, s)")
    case True
    then show ?thesis by simp
  next
    case False
    with "8.prems" obtain mid where mid: "mid \<in> set (rx ci r (caps, s))"
      and len: "length (snd mid) < length s" and st': "st' \<in> set (rx ci (Star r) mid)"
      by (auto split: if_splits)
    from "8.IH"(1) [OF mid] obtain p where p: "s = p @ snd mid" by auto
    from "8.IH"(2) [OF mid len st'] obtain q where "snd mid = q @ snd st'" by blast
    with p show ?thesis by simp
  qed
next
  case (9 ci n r caps s)
  then show ?case by (cases st') auto
qed


lemma rx_search_parts:
  "rx_search ci r s = Some mt \<Longrightarrow> skipped mt @ whole mt @ remaining mt = s"
proof (induction s arbitrary: mt)
  case Nil
  show ?case
  proof (cases "rx ci r ([], [])")
    case Nil
    with Nil.prems show ?thesis by (simp add: rx_search.simps [of ci r "[]"])
  next
    case (Cons st sts)
    obtain caps rest where st: "st = (caps, rest)" by (cases st)
    have "st \<in> set (rx ci r ([], []))" using Cons by simp
    from rx_suffix [OF this] st have "rest = []" by simp
    with Nil.prems Cons st show ?thesis by (auto simp: rx_search.simps [of ci r "[]"])
  qed
next
  case (Cons c cs)
  show ?case
  proof (cases "rx ci r ([], c # cs)")
    case Nil
    with Cons.prems obtain mt' where mt': "rx_search ci r cs = Some mt'"
      and mt: "mt = mt'\<lparr>skipped := c # skipped mt'\<rparr>"
      by (auto simp: rx_search.simps [of ci r "c # cs"])
    from Cons.IH [OF mt'] mt show ?thesis by simp
  next
    case (Cons st sts)
    obtain caps rest where st: "st = (caps, rest)" by (cases st)
    have "st \<in> set (rx ci r ([], c # cs))" using Cons by simp
    from rx_suffix [OF this] st obtain p where p: "c # cs = p @ rest" by auto
    from Cons.prems Cons st
    have mt: "mt = \<lparr>skipped = [], whole = take (length (c # cs) - length rest) (c # cs),
                 groups = caps, remaining = rest\<rparr>"
      by (simp add: rx_search.simps [of ci r "c # cs"])
    have "take (length (c # cs) - length rest) (c # cs) = p"
      by (subst (1 2) p) simp
    with mt p show ?thesis by simp
  qed
qed

text \<open>
  \<open>s.matchAll(r)\<close> for a global \<open>r\<close>: the successive leftmost matches, each search starting
  where the previous match ended, one position further after an empty match.
\<close>

function rx_matchAll :: "bool \<Rightarrow> re \<Rightarrow> string \<Rightarrow> rmatch list" where
  "rx_matchAll ci r s =
     (case rx_search ci r s of
        None \<Rightarrow> []
      | Some mt \<Rightarrow>
          mt # (if whole mt = []
                then (case remaining mt of [] \<Rightarrow> [] | c # t \<Rightarrow> rx_matchAll ci r t)
                else rx_matchAll ci r (remaining mt)))"
  by pat_completeness auto
termination
proof (relation "measure (\<lambda>(ci, r, s). length s)")
  show "wf (measure (\<lambda>(ci, r, s). length s))" by simp
next
  fix ci r s mt c t
  assume "rx_search ci r s = Some mt" "remaining mt = c # t"
  from rx_search_parts [OF this(1)]
  have "length (skipped mt @ whole mt @ remaining mt) = length s" by simp
  with \<open>remaining mt = c # t\<close>
  have "length s = length (skipped mt) + length (whole mt) + Suc (length t)" by simp
  then show "((ci, r, t), (ci, r, s)) \<in> measure (\<lambda>(ci, r, s). length s)" by simp
next
  fix ci r s mt
  assume "rx_search ci r s = Some mt" "whole mt \<noteq> []"
  from rx_search_parts [OF this(1)]
  have "length (skipped mt @ whole mt @ remaining mt) = length s" by simp
  then have "length s = length (skipped mt) + length (whole mt) + length (remaining mt)"
    by simp
  with \<open>whole mt \<noteq> []\<close>
  show "((ci, r, remaining mt), (ci, r, s)) \<in> measure (\<lambda>(ci, r, s). length s)" by simp
qed

text \<open>\<open>s.replace(r, '')\<close> for a global \<open>r\<close>: the text with every match of that iteration removed.\<close>

function rx_remove :: "bool \<Rightarrow> re \<Rightarrow> string \<Rightarrow> string" where
  "rx_remove ci r s =
     (case rx_search ci r s of
        None \<Rightarrow> s
      | Some mt \<Rightarrow>
          skipped mt @
          (if whole mt = []
           then (case remaining mt of [] \<Rightarrow> [] | c # t \<Rightarrow> c # rx_remove ci r t)
           else rx_remove ci r (remaining mt)))"
  by pat_completeness auto
termination
proof (relation "measure (\<lambda>(ci, r, s). length s)")
  show "wf (measure (\<lambda>(ci, r, s). length s))" by simp
next
  fix ci r s mt c t
  assume "rx_search ci r s = Some mt" "remaining mt = c # t"
  from rx_search_parts [OF this(1)]
  have "length (skipped mt @ whole mt @ remaining mt) = length s" by simp
  with \<open>remaining mt = c # t\<close>
  have "length s = length (skipped mt) + length (whole mt) + Suc (length t)" by simp
  then show "((ci, r, t), (ci, r, s)) \<in> measure (\<lambda>(ci, r, s). length s)" by simp
next
  fix ci r s mt
  assume "rx_search ci r s = Some mt" "whole mt \<noteq> []"
  from rx_search_parts [OF this(1)]
  have "length (skipped mt @ whole mt @ remaining mt) = length s" by simp
  then have "length s = length (skipped mt) + length (whole mt) + length (remaining mt)"
    by simp
  with \<open>whole mt \<noteq> []\<close>
  show "((ci, r, remaining mt), (ci, r, s)) \<in> measure (\<lambda>(ci, r, s). length s)" by simp
qed

declare rx_matchAll.simps [simp del] rx_remove.simps [simp del]

section \<open>Data model\<close>

datatype status = pending | generated | running | passed | failed

text \<open>The test-data payload (\<open>testData\<close>): each property may be absent.\<close>

record TestData =
  url :: "string option"
  username :: "string option"
  password :: "string option"

record ITestCase =
  id' :: string
  name :: string
  description :: string
  steps :: "string list"
  expectedResult :: string
  cypressCode :: "string option"
  playwrightCode :: "string option"
  status :: "status option"
  testData :: "TestData option"

record IPRDAnalysis =
  features :: "string list"
  userStories :: "string list"
  acceptanceCriteria :: "string list"
  testCases :: "ITestCase list"

section \<open>parseTestDataFromPRD\<close>

text \<open>\<open>/URL:\s*(https?:\/\/[^\s]+)/i\<close>\<close>

definition urlPattern :: re where
  "urlPattern =
     Seq [Str ''URL:'', Star (Cls False [WS]),
          Cap 1 (Seq [Str ''http'', Opt (Chr CHR ''s''), Str ''://'', Plus (Cls True [WS])])]"

text \<open>\<open>/Username:\s*([^\s]+)/i\<close>\<close>

definition usernamePattern :: re where
  "usernamePattern = Seq [Str ''Username:'', Star (Cls False [WS]), Cap 1 (Plus (Cls True [WS]))]"

text \<open>\<open>/Password:\s*([^\s]+)/i\<close>\<close>

definition passwordPattern :: re where
  "passwordPattern = Seq [Str ''Password:'', Star (Cls False [WS]), Cap 1 (Plus (Cls True [WS]))]"

text \<open>The body of the loop over the lines: each field is overwritten when its pattern matches.\<close>

definition parseLine :: "TestData \<Rightarrow> string \<Rightarrow> TestData" where
  "parseLine td line =
     (let urlMatch = rx_search True urlPattern line;
          usernameMatch = rx_search True usernamePattern line;
          passwordMatch = rx_search True passwordPattern line;
          td1 = (case urlMatch of None \<Rightarrow> td | Some mt \<Rightarrow> td\<lparr>url := grp mt 1\<rparr>);
          td2 = (case usernameMatch of None \<Rightarrow> td1 | Some mt \<Rightarrow> td1\<lparr>username := grp mt 1\<rparr>);
          td3 = (case passwordMatch of None \<Rightarrow> td2 | Some mt \<Rightarrow> td2\<lparr>password := grp mt 1\<rparr>)
      in td3)"

definition parseTestDataFromPRD :: "string \<Rightarrow> TestData option" where
  "parseTestDataFromPRD prd =
     (let lines = split_on NL prd;
          testData = foldl parseLine \<lparr>url = None, username = None, password = None\<rparr> lines
      in if truthy (url testData) then Some testData else None)"

section \<open>generateLoginTestCasesForURL\<close>

definition generateLoginTestCasesForURL :: "TestData \<Rightarrow> ITestCase list" where
  "generateLoginTestCasesForURL td =
     [\<lparr>id' = ''login-001'',
       name = ''Successful Login with Valid Credentials'',
       description = ''Verify user can login to '' @ tpl (url td) @ '' with valid credentials'',
       steps = [''Navigate to '' @ tpl (url td),
                ''Enter username: '' @ tpl (username td),
                ''Enter password: '' @ tpl (password td),
                ''Click login/submit button'',
                ''Verify successful login''],
       expectedResult = ''User is successfully logged in and redirected to dashboard/home page'',
       cypressCode = None, playwrightCode = None,
       status = Some pending,
       testData = Some td\<rparr>,
      \<lparr>id' = ''login-002'',
       name = ''Invalid Username Test'',
       description = ''Verify system shows error for invalid username'',
       steps = [''Navigate to '' @ tpl (url td),
                ''Enter invalid username'',
                ''Enter password: '' @ tpl (password td),
                ''Click login button''],
       expectedResult = ''Error message is displayed indicating invalid username'',
       cypressCode = None, playwrightCode = None,
       status = Some pending,
       testData = Some td\<rparr>,
      \<lparr>id' = ''login-003'',
       name = ''Invalid Password Test'',
       description = ''Verify system shows error for invalid password'',
       steps = [''Navigate to '' @ tpl (url td),
                ''Enter username: '' @ tpl (username td),
                ''Enter invalid password'',
                ''Click login button''],
       expectedResult = ''Error message is displayed indicating invalid password'',
       cypressCode = None, playwrightCode = None,
       status = Some pending,
       testData = Some td\<rparr>,
      \<lparr>id' = ''login-004'',
       name = ''Empty Fields Validation'',
       description = ''Verify validation for empty username and password fields'',
       steps = [''Navigate to '' @ tpl (url td),
                ''Leave username and password fields empty'',
                ''Click login button''],
       expectedResult = ''Validation messages appear for required fields'',
       cypressCode = None, playwrightCode = None,
       status = Some pending,
       testData = Some td\<rparr>]"

section \<open>The heuristic extractors\<close>

text \<open>\<open>match[1]\<close> of a match of a pattern whose group 1 is not optional.\<close>

definition group1 :: "rmatch \<Rightarrow> string" where
  "group1 mt = (case grp mt 1 of Some g \<Rightarrow> g | None \<Rightarrow> [])"

text \<open>\<open>[...new Set(xs)]\<close>: a value is added when it is not yet in the set; insertion order is kept.\<close>

definition new_Set :: "string list \<Rightarrow> string list" where
  "new_Set xs = foldl (\<lambda>acc x. if x \<in> set acc then acc else acc @ [x]) [] xs"

text \<open>
  \<open>/feature[s]?:\s*([^\n]+)/gi\<close>, \<open>/functionality[ies]?:\s*([^\n]+)/gi\<close>,
  \<open>/requirement[s]?:\s*([^\n]+)/gi\<close>
\<close>

definition featurePatterns :: "re list" where
  "featurePatterns =
     [Seq [Str ''feature'', Opt (Cls False [C CHR ''s'']), Chr CHR '':'',
           Star (Cls False [WS]), Cap 1 (Plus (Cls True [C NL]))],
      Seq [Str ''functionality'', Opt (Cls False [C CHR ''i'', C CHR ''e'', C CHR ''s'']), Chr CHR '':'',
           Star (Cls False [WS]), Cap 1 (Plus (Cls True [C NL]))],
      Seq [Str ''requirement'', Opt (Cls False [C CHR ''s'']), Chr CHR '':'',
           Star (Cls False [WS]), Cap 1 (Plus (Cls True [C NL]))]]"

text \<open>The features pushed before the set is built.\<close>

definition rawFeatures :: "string \<Rightarrow> string list" where
  "rawFeatures prd =
     concat (map (\<lambda>pattern. map (\<lambda>mt. trim (group1 mt)) (rx_matchAll True pattern prd)) featurePatterns)
     @ (if includes_str (toLowerCase prd) ''login'' then [''User Authentication''] else [])
     @ (if includes_str (toLowerCase prd) ''cart'' then [''Shopping Cart''] else [])
     @ (if includes_str (toLowerCase prd) ''checkout'' then [''Checkout Process''] else [])
     @ (if includes_str (toLowerCase prd) ''search'' then [''Search Functionality''] else [])"

definition extractFeatures :: "string \<Rightarrow> string list" where
  "extractFeatures prd = new_Set (rawFeatures prd)"

text \<open>\<open>/as a[n]?\s+(\w+)[,\s]+i (want|need|would like)[^.]+/gi\<close>\<close>

definition storyPattern :: re where
  "storyPattern =
     Seq [Str ''as a'', Opt (Cls False [C CHR ''n'']), Plus (Cls False [WS]),
          Cap 1 (Plus (Cls False [WordC])), Plus (Cls False [C CHR '','', WS]), Str ''i '',
          Cap 2 (Alt [Str ''want'', Str ''need'', Str ''would like'']),
          Plus (Cls True [C CHR ''.''])]"

definition extractUserStories :: "string \<Rightarrow> string list" where
  "extractUserStories prd =
     (let stories = map whole (rx_matchAll True storyPattern prd)
      in if length stories = 0 then [''As a user, I want to use the system effectively'']
         else stories)"

text \<open>
  \<open>/acceptance criteri[a|on]:\s*([^\n]+)/gi\<close>, \<open>/must\s+([^\n]+)/gi\<close>,
  \<open>/should\s+([^\n]+)/gi\<close>
\<close>

definition criteriaPatterns :: "re list" where
  "criteriaPatterns =
     [Seq [Str ''acceptance criteri'',
           Cls False [C CHR ''a'', C CHR ''|'', C CHR ''o'', C CHR ''n''], Chr CHR '':'',
           Star (Cls False [WS]), Cap 1 (Plus (Cls True [C NL]))],
      Seq [Str ''must'', Plus (Cls False [WS]), Cap 1 (Plus (Cls True [C NL]))],
      Seq [Str ''should'', Plus (Cls False [WS]), Cap 1 (Plus (Cls True [C NL]))]]"

definition extractAcceptanceCriteria :: "string \<Rightarrow> string list" where
  "extractAcceptanceCriteria prd =
     concat (map (\<lambda>pattern. map (\<lambda>mt. trim (group1 mt)) (rx_matchAll True pattern prd)) criteriaPatterns)"

section \<open>generateTestCasesFallback\<close>

definition generateLoginTestCases :: "ITestCase list" where
  "generateLoginTestCases =
     [\<lparr>id' = ''login-001'',
       name = ''Successful Login'',
       description = ''User can login with valid credentials'',
       steps = [''Navigate to login page'', ''Enter valid email address'',
                ''Enter valid password'', ''Click login button''],
       expectedResult = ''User is redirected to dashboard'',
       cypressCode = None, playwrightCode = None, status = Some pending, testData = None\<rparr>,
      \<lparr>id' = ''login-002'',
       name = ''Invalid Credentials'',
       description = ''System shows error for invalid login'',
       steps = [''Navigate to login page'', ''Enter invalid email or password'',
                ''Click login button''],
       expectedResult = ''Error message is displayed'',
       cypressCode = None, playwrightCode = None, status = Some pending, testData = None\<rparr>]"

definition generateCartTestCases :: "ITestCase list" where
  "generateCartTestCases =
     [\<lparr>id' = ''cart-001'',
       name = ''Add to Cart'',
       description = ''User can add products to cart'',
       steps = [''Navigate to product page'', ''Click add to cart button'',
                ''Verify cart notification''],
       expectedResult = ''Product is added to cart'',
       cypressCode = None, playwrightCode = None, status = Some pending, testData = None\<rparr>,
      \<lparr>id' = ''cart-002'',
       name = ''Remove from Cart'',
       description = ''User can remove items from cart'',
       steps = [''Navigate to cart page'', ''Click remove button on item'', ''Confirm removal''],
       expectedResult = ''Item is removed from cart'',
       cypressCode = None, playwrightCode = None, status = Some pending, testData = None\<rparr>]"

definition generateSearchTestCases :: "ITestCase list" where
  "generateSearchTestCases =
     [\<lparr>id' = ''search-001'',
       name = ''Search Functionality'',
       description = ''User can search for items'',
       steps = [''Navigate to homepage'', ''Enter search term'', ''Click search button''],
       expectedResult = ''Search results are displayed'',
       cypressCode = None, playwrightCode = None, status = Some pending, testData = None\<rparr>]"

definition generateGenericTestCase :: ITestCase where
  "generateGenericTestCase =
     \<lparr>id' = ''generic-001'',
      name = ''Basic Functionality Test'',
      description = ''Verify basic system functionality'',
      steps = [''Navigate to application'', ''Perform primary action'',
               ''Verify expected behavior''],
      expectedResult = ''System works as expected'',
      cypressCode = None, playwrightCode = None, status = Some pending, testData = None\<rparr>"

definition generateTestCasesFallback :: "string \<Rightarrow> ITestCase list" where
  "generateTestCasesFallback prd =
     (let prdLower = toLowerCase prd;
          tc1 = (if includes_str prdLower ''login'' then generateLoginTestCases else []);
          tc2 = (if includes_str prdLower ''cart'' \<or> includes_str prdLower ''shopping''
                 then tc1 @ generateCartTestCases else tc1);
          tc3 = (if includes_str prdLower ''search'' then tc2 @ generateSearchTestCases else tc2)
      in if length tc3 = 0 then tc3 @ [generateGenericTestCase] else tc3)"

section \<open>The step translators\<close>

definition extractElement :: "string \<Rightarrow> string" where
  "extractElement step =
     (if includes_str (toLowerCase step) ''button'' then ''[data-test=\"button\"]''
      else if includes_str (toLowerCase step) ''input'' then ''[data-test=\"input\"]''
      else if includes_str (toLowerCase step) ''email'' then ''[data-test=\"email\"]''
      else if includes_str (toLowerCase step) ''password'' then ''[data-test=\"password\"]''
      else if includes_str (toLowerCase step) ''search'' then ''[data-test=\"search\"]''
      else ''[data-test=\"element\"]'')"

definition stepToCypressCommand :: "string \<Rightarrow> string" where
  "stepToCypressCommand step =
     (let stepLower = toLowerCase step in
      if includes_str stepLower ''navigate'' \<or> includes_str stepLower ''go to'' then
        ''cy.visit('/');''
      else if includes_str stepLower ''click'' then
        ''cy.get('' @ sq @ extractElement step @ sq @ '').click();''
      else if includes_str stepLower ''enter'' \<or> includes_str stepLower ''type'' then
        ''cy.get('' @ sq @ extractElement step @ sq @ '').type('test data');''
      else if includes_str stepLower ''select'' then
        ''cy.get('' @ sq @ extractElement step @ sq @ '').select('option');''
      else if includes_str stepLower ''verify'' \<or> includes_str stepLower ''check'' then
        ''cy.get('[data-test]').should('exist');''
      else
        ''// '' @ step)"

definition stepToPlaywrightCommand :: "string \<Rightarrow> string" where
  "stepToPlaywrightCommand step =
     (let stepLower = toLowerCase step in
      if includes_str stepLower ''navigate'' \<or> includes_str stepLower ''go to'' then
        ''await page.goto('/');''
      else if includes_str stepLower ''click'' then
        ''await page.click('' @ sq @ extractElement step @ sq @ '');''
      else if includes_str stepLower ''enter'' \<or> includes_str stepLower ''type'' then
        ''await page.fill('' @ sq @ extractElement step @ sq @ '', 'test data');''
      else if includes_str stepLower ''verify'' \<or> includes_str stepLower ''check'' then
        ''await expect(page.locator('[data-test]')).toBeVisible();''
      else
        ''// '' @ step)"

definition expectedResultToAssertion :: "string \<Rightarrow> string" where
  "expectedResultToAssertion result =
     (let resultLower = toLowerCase result in
      if includes_str resultLower ''redirect'' then
        ''cy.url().should('include', '/dashboard');''
      else if includes_str resultLower ''display'' \<or> includes_str resultLower ''show'' then
        ''cy.get('[data-test=\"result\"]').should('be.visible');''
      else if includes_str resultLower ''error'' then
        ''cy.get('[data-test=\"error\"]').should('contain', 'Error');''
      else
        ''cy.get('[data-test=\"success\"]').should('exist');'')"

definition expectedResultToPlaywrightAssertion :: "string \<Rightarrow> string" where
  "expectedResultToPlaywrightAssertion result =
     (let resultLower = toLowerCase result in
      if includes_str resultLower ''redirect'' then
        ''await expect(page).toHaveURL(/.*dashboard/);''
      else if includes_str resultLower ''display'' \<or> includes_str resultLower ''show'' then
        ''await expect(page.locator('[data-test=\"result\"]')).toBeVisible();''
      else if includes_str resultLower ''error'' then
        ''await expect(page.locator('[data-test=\"error\"]')).toContainText('Error');''
      else
        ''await expect(page.locator('[data-test=\"success\"]')).toBeVisible();'')"

section \<open>The remote capability\<close>

text \<open>
  A JSON value as \<open>JSON.parse\<close> and \<open>response.json()\<close> return it. An object is the list of
  its own properties, each key once. The program never inspects a number.
\<close>

datatype json =
    JNull
  | JBool bool
  | JNum int
  | JStr string
  | JArr "json list"
  | JObj "(string \<times> json) list"

text \<open>What an expression evaluates to: \<open>undefined\<close> or a JSON value.\<close>

datatype jsval = Undefined | Val json

text \<open>
  The values the program throws: an \<open>Error\<close> with its message, the \<open>TypeError\<close> of a read
  from \<open>undefined\<close> or \<open>null\<close> or of a call of something that is not a function, the
  \<open>SyntaxError\<close> of a text that is not JSON, and the rejection of \<open>fetch\<close> itself.
\<close>

datatype error = Error string | TypeError | SyntaxError | FetchRejected

text \<open>
  The request \<open>fetch\<close> is given: the endpoint, the \<open>Authorization\<close> header and the fields
  of the body that vary (\<open>temperature\<close> and \<open>max_tokens\<close> are constants).
\<close>

record request =
  endpoint :: string
  authorization :: string
  model :: string
  systemContent :: string
  userContent :: string

text \<open>
  The response: \<open>response.ok\<close>, \<open>response.statusText\<close> and what \<open>response.json()\<close>
  resolves to (\<open>None\<close> when it rejects).
\<close>

record response =
  ok :: bool
  statusText :: string
  json_body :: "json option"

datatype fetch_result = Rejected | Responded response

text \<open>
  A \<open>URI\<close> of the editor's base library is a value the service only passes on: to
  \<open>URI.joinPath\<close>, to \<open>fsPath\<close> and to the file service. It is represented by a string;
  what the library computes from it is left to the environment.
\<close>

type_synonym uri = string

text \<open>
  The state and the collaborators of the service: the field \<open>openaiApiKey\<close>, the
  configured model (\<open>configurationService?.getValue('cypressAssistant.openaiModel')\<close>), the
  built-ins \<open>fetch\<close>, \<open>JSON.parse\<close> (\<open>None\<close> when it throws) and \<open>JSON.stringify\<close>, the
  \<open>uri\<close> of the first workspace folder, and the library functions \<open>URI.joinPath\<close> and
  \<open>fsPath\<close>, which are not code of the service.
\<close>

record env =
  openaiApiKey :: "string option"
  configuredModel :: "string option"
  fetch :: "request \<Rightarrow> fetch_result"
  JSON_parse :: "jsval \<Rightarrow> json option"
  JSON_stringify :: "json \<Rightarrow> string"
  workspaceFolder :: "uri option"
  joinPath :: "uri \<Rightarrow> string list \<Rightarrow> uri"
  fsPath :: "uri \<Rightarrow> string"

definition openaiEndpoint :: string where
  "openaiEndpoint = ''https://api.openai.com/v1/chat/completions''"

definition defaultModel :: string where
  "defaultModel = ''gpt-4''"

text \<open>\<open>configurationService?.getValue('cypressAssistant.openaiModel') || this.defaultModel\<close>\<close>

definition selectedModel :: "env \<Rightarrow> string" where
  "selectedModel e = (if truthy (configuredModel e) then tpl (configuredModel e) else defaultModel)"

text \<open>
  A property read \<open>v.k\<close> or \<open>v[0]\<close> (the key \<open>''0''\<close>), for the keys the program reads:
  \<open>choices\<close>, \<open>0\<close>, \<open>message\<close>, \<open>content\<close>, \<open>testCases\<close>. None of them is inherited from a
  prototype, so a read of an object is a lookup among its own properties; an array and a
  string have the key \<open>0\<close> when they are not empty.
\<close>

fun getProp :: "jsval \<Rightarrow> string \<Rightarrow> error + jsval" where
  "getProp Undefined k = Inl TypeError"
| "getProp (Val JNull) k = Inl TypeError"
| "getProp (Val (JBool b)) k = Inr Undefined"
| "getProp (Val (JNum n)) k = Inr Undefined"
| "getProp (Val (JStr s)) k =
     Inr (if k = ''0'' then (case s of [] \<Rightarrow> Undefined | c # _ \<Rightarrow> Val (JStr [c])) else Undefined)"
| "getProp (Val (JArr xs)) k =
     Inr (if k = ''0'' then (case xs of [] \<Rightarrow> Undefined | x # _ \<Rightarrow> Val x) else Undefined)"
| "getProp (Val (JObj kvs)) k = Inr (case map_of kvs k of None \<Rightarrow> Undefined | Some v \<Rightarrow> Val v)"

text \<open>Sequencing of steps that may throw.\<close>

fun bind :: "error + 'a \<Rightarrow> ('a \<Rightarrow> error + 'b) \<Rightarrow> error + 'b" where
  "bind (Inl e) f = Inl e"
| "bind (Inr x) f = f x"

section \<open>callOpenAIWithModel\<close>

text \<open>
  The result, and the requests sent. The \<open>catch\<close> of the source logs the error and throws
  it again.
\<close>

definition callOpenAIWithModel ::
  "env \<Rightarrow> string \<Rightarrow> string \<Rightarrow> string \<Rightarrow> (error + jsval) \<times> request list" where
  "callOpenAIWithModel e prompt systemPrompt mdl =
     (if \<not> truthy (openaiApiKey e) then
        (Inl (Error ''OpenAI API key not configured. Please set it in settings.''), [])
      else
        let req = \<lparr>endpoint = openaiEndpoint,
                   authorization = ''Bearer '' @ tpl (openaiApiKey e),
                   model = mdl, systemContent = systemPrompt, userContent = prompt\<rparr>
        in (case fetch e req of
              Rejected \<Rightarrow> Inl FetchRejected
            | Responded resp \<Rightarrow>
                if \<not> ok resp then
                  (let errorData = (case json_body resp of None \<Rightarrow> JObj [] | Some d \<Rightarrow> d)
                   in Inl (Error (''OpenAI API error: '' @ statusText resp @ '' - ''
                                  @ JSON_stringify e errorData)))
                else
                  (case json_body resp of
                     None \<Rightarrow> Inl SyntaxError
                   | Some data \<Rightarrow>
                       bind (getProp (Val data) ''choices'') (\<lambda>choices.
                       bind (getProp choices ''0'') (\<lambda>choice.
                       bind (getProp choice ''message'') (\<lambda>message.
                       getProp message ''content'')))),
            [req]))"

section \<open>analyzePRD\<close>

definition nl :: string where
  "nl = [NL]"

definition tab :: string where
  "tab = [CHR 0x09]"

text \<open>
  In the template literals below a character outside ASCII (the source's comments and
  console messages in Chinese, and emoji) is written \<open><U+hhhh>\<close>, its code point; these
  characters stand in fixed text only.
\<close>


definition analysisSystemPrompt :: "string" where
  "analysisSystemPrompt =
     concat
      [''You are an expert QA automation engineer. Analyze the given PRD and generate comprehensive test cases.'', nl,
       tab, tab, ''Return the response in JSON format with the following structure:'', nl,
       tab, tab, ''{'', nl,
       tab, tab, tab, ''\"features\": [\"list of features\"],'', nl,
       tab, tab, tab, ''\"userStories\": [\"list of user stories\"],'', nl,
       tab, tab, tab, ''\"acceptanceCriteria\": [\"list of acceptance criteria\"],'', nl,
       tab, tab, tab, ''\"testCases\": ['', nl,
       tab, tab, tab, tab, ''{'', nl,
       tab, tab, tab, tab, tab, ''\"id\": \"unique-id\",'', nl,
       tab, tab, tab, tab, tab, ''\"name\": \"test name\",'', nl,
       tab, tab, tab, tab, tab, ''\"description\": \"test description\",'', nl,
       tab, tab, tab, tab, tab, ''\"steps\": [\"step 1\", \"step 2\"],'', nl,
       tab, tab, tab, tab, tab, ''\"expectedResult\": \"expected outcome\"'', nl,
       tab, tab, tab, tab, ''}'', nl,
       tab, tab, tab, '']'', nl,
       tab, tab, ''}'']"

definition analysisPrompt :: "string \<Rightarrow> string" where
  "analysisPrompt prd =
     concat
      [''Analyze this PRD and generate comprehensive test cases:'', nl,
       nl,
       prd]"

text \<open>The test data when \<open>testData && testData.url\<close> (or \<open>testData?.url\<close>) holds: when it is there and its \<open>url\<close> is truthy.\<close>

definition urlData :: "TestData option \<Rightarrow> TestData option" where
  "urlData t = (case t of None \<Rightarrow> None | Some td \<Rightarrow> if truthy (url td) then Some td else None)"

text \<open>The analysis of a request that names a URL.\<close>

definition urlAnalysis :: "TestData \<Rightarrow> IPRDAnalysis" where
  "urlAnalysis td =
     \<lparr>features = [''Login Authentication''],
      userStories = [''As a user, I want to login to '' @ tpl (url td)],
      acceptanceCriteria =
        [''Valid credentials allow successful login'',
         ''Invalid credentials show appropriate error messages'',
         ''Empty fields show validation messages''],
      testCases = generateLoginTestCasesForURL td\<rparr>"

definition analyzePRDFallback :: "string \<Rightarrow> IPRDAnalysis" where
  "analyzePRDFallback prd =
     (case urlData (parseTestDataFromPRD prd) of
        Some td \<Rightarrow> urlAnalysis td
      | None \<Rightarrow>
          \<lparr>features = extractFeatures prd,
           userStories = extractUserStories prd,
           acceptanceCriteria = extractAcceptanceCriteria prd,
           testCases = generateTestCasesFallback prd\<rparr>)"

text \<open>The decimal numeral of an array index.\<close>

fun dec :: "nat \<Rightarrow> string" where
  "dec n = (if n < 10 then [char_of (48 + n)] else dec (n div 10) @ [char_of (48 + n mod 10)])"

declare dec.simps [simp del]

text \<open>\<open>o[k] = v\<close> on the own properties of an object: in place when \<open>k\<close> is there, last otherwise.\<close>

fun setProp :: "(string \<times> json) list \<Rightarrow> string \<Rightarrow> json \<Rightarrow> (string \<times> json) list" where
  "setProp [] k v = [(k, v)]"
| "setProp ((k', v') # kvs) k v = (if k' = k then (k, v) # kvs else (k', v') # setProp kvs k v)"

text \<open>
  \<open>{...tc, status: 'pending'}\<close>: the own enumerable properties of \<open>tc\<close> (the elements of an
  array and the characters of a string under their indices, none for the other values),
  then \<open>status\<close>.
\<close>

definition stampPending :: "json \<Rightarrow> json" where
  "stampPending tc =
     (let own = (case tc of
                   JObj kvs \<Rightarrow> kvs
                 | JArr xs \<Rightarrow> zip (map dec [0..<length xs]) xs
                 | JStr s \<Rightarrow> zip (map dec [0..<length s]) (map (\<lambda>c. JStr [c]) s)
                 | _ \<Rightarrow> [])
      in JObj (setProp own ''status'' (JStr ''pending'')))"

text \<open>What \<open>analyzePRD\<close> returns: the parsed answer of the remote capability, or a local analysis.\<close>

datatype analysis = Remote json | Local IPRDAnalysis

text \<open>
  \<open>analysis.testCases = analysis.testCases.map(tc => ({...tc, status: 'pending'}))\<close>:
  \<open>analysis.testCases.map\<close> is a function only when \<open>analysis.testCases\<close> is an array.
\<close>

definition stampTestCases :: "json \<Rightarrow> error + json" where
  "stampTestCases a =
     bind (getProp (Val a) ''testCases'') (\<lambda>tcs.
       case (a, tcs) of
         (JObj kvs, Val (JArr xs)) \<Rightarrow>
           Inr (JObj (setProp kvs ''testCases'' (JArr (map stampPending xs))))
       | _ \<Rightarrow> Inl TypeError)"

text \<open>The body of the \<open>try\<close> of \<open>analyzePRD\<close>: the result, and the requests sent.\<close>

definition remoteAnalysis :: "env \<Rightarrow> string \<Rightarrow> (error + json) \<times> request list" where
  "remoteAnalysis e prd =
     (let (r, sent) = callOpenAIWithModel e (analysisPrompt prd) analysisSystemPrompt (selectedModel e)
      in (bind r (\<lambda>response.
            case JSON_parse e response of
              None \<Rightarrow> Inl SyntaxError
            | Some a \<Rightarrow> stampTestCases a),
          sent))"

definition analyzePRD :: "env \<Rightarrow> string \<Rightarrow> (error + analysis) \<times> request list" where
  "analyzePRD e prd =
     (case urlData (parseTestDataFromPRD prd) of
        Some td \<Rightarrow> (Inr (Local (urlAnalysis td)), [])
      | None \<Rightarrow>
          (case remoteAnalysis e prd of
             (Inr a, sent) \<Rightarrow> (Inr (Remote a), sent)
           | (Inl err, sent) \<Rightarrow> (Inr (Local (analyzePRDFallback prd)), sent)))"

section \<open>Code generation\<close>

definition cypressSystemPrompt :: "string" where
  "cypressSystemPrompt =
     concat
      [''You are an expert Cypress automation engineer. Generate clean, production-ready Cypress test code.'', nl,
       tab, tab, ''Use modern Cypress best practices including:'', nl,
       tab, tab, ''- Proper selectors (data-cy, data-test, id, or class attributes)'', nl,
       tab, tab, ''- Appropriate assertions'', nl,
       tab, tab, ''- Clear comments'', nl,
       tab, tab, ''- Error handling'', nl,
       tab, tab, ''- Proper waits and timeouts'', nl,
       tab, tab, ''If the test case includes a URL, use cy.visit() with that exact URL.'']"

definition cypressPrompt :: "ITestCase \<Rightarrow> string" where
  "cypressPrompt tc =
     concat
      [''Generate Cypress test code for:'', nl,
       tab, tab, ''Test Name: '', name tc, nl,
       tab, tab, ''Description: '', description tc, nl,
       tab, tab, ''Steps: '', join '', '' (steps tc), nl,
       tab, tab, ''Expected Result: '', expectedResult tc]"

definition generateCypressCodeForURL :: "ITestCase \<Rightarrow> TestData \<Rightarrow> string" where
  "generateCypressCodeForURL tc td =
     concat
      [''describe('', sq, name tc, sq, '', () => {'', nl,
       tab, ''it('', sq, description tc, sq, '', () => {'', nl,
       tab, tab, ''// <U+8BBE><U+7F6E><U+6162><U+901F><U+6267><U+884C><U+FF0C><U+4FBF><U+4E8E><U+89C2><U+5BDF>'', nl,
       tab, tab, ''cy.viewport(1280, 720);'', nl,
       tab, tab, nl,
       tab, tab, ''// Navigate to the login page'', nl,
       tab, tab, ''cy.visit('', sq, tpl (url td), sq, '');'', nl,
       tab, tab, ''cy.wait(2000); // <U+7B49><U+5F85><U+9875><U+9762><U+52A0><U+8F7D>'', nl,
       tab, tab, nl,
       tab, tab, ''// <U+9AD8><U+4EAE><U+663E><U+793A><U+7528><U+6237><U+540D><U+8F93><U+5165><U+6846>'', nl,
       tab, tab, ''cy.get('#username').should('be.visible').focus();'', nl,
       tab, tab, ''cy.wait(1000); // <U+6682><U+505C>1<U+79D2>'', nl,
       tab, tab, nl,
       tab, tab, ''// <U+6162><U+901F><U+8F93><U+5165><U+7528><U+6237><U+540D>'', nl,
       tab, tab, ''cy.get('#username').clear().type('', sq, tpl (username td), sq, '', { delay: 100 });'', nl,
       tab, tab, ''cy.wait(1000);'', nl,
       tab, tab, nl,
       tab, tab, ''// <U+9AD8><U+4EAE><U+663E><U+793A><U+5BC6><U+7801><U+8F93><U+5165><U+6846>'', nl,
       tab, tab, ''cy.get('#password').focus();'', nl,
       tab, tab, ''cy.wait(1000);'', nl,
       tab, tab, nl,
       tab, tab, ''// <U+6162><U+901F><U+8F93><U+5165><U+5BC6><U+7801>'', nl,
       tab, tab, ''cy.get('#password').clear().type('', sq, tpl (password td), sq, '', { delay: 100 });'', nl,
       tab, tab, ''cy.wait(1000);'', nl,
       tab, tab, nl,
       tab, tab, ''// <U+70B9><U+51FB><U+767B><U+5F55><U+6309><U+94AE><U+524D><U+6682><U+505C>'', nl,
       tab, tab, ''cy.get('button[type=\"submit\"]').should('be.visible');'', nl,
       tab, tab, ''cy.wait(1500);'', nl,
       tab, tab, nl,
       tab, tab, ''// <U+70B9><U+51FB><U+767B><U+5F55>'', nl,
       tab, tab, ''cy.get('button[type=\"submit\"]').click();'', nl,
       tab, tab, ''cy.wait(2000);'', nl,
       tab, tab, nl,
       tab, tab, ''// <U+9A8C><U+8BC1><U+7ED3><U+679C>'', nl,
       tab, tab, ''cy.url().should('include', '/secure');'', nl,
       tab, ''});'', nl,
       tab, ''});'']"

definition playwrightSystemPrompt :: "string" where
  "playwrightSystemPrompt =
     concat
      [''You are an expert Playwright automation engineer. Generate clean, production-ready Playwright test code.'', nl,
       tab, tab, ''Use modern Playwright best practices including:'', nl,
       tab, tab, ''- Proper locators'', nl,
       tab, tab, ''- Async/await patterns'', nl,
       tab, tab, ''- Appropriate assertions with expect'', nl,
       tab, tab, ''- Error handling'', nl,
       tab, tab, ''- Page object pattern when appropriate'']"

definition playwrightPrompt :: "ITestCase \<Rightarrow> string" where
  "playwrightPrompt tc =
     concat
      [''Generate Playwright test code for:'', nl,
       tab, tab, ''Test Name: '', name tc, nl,
       tab, tab, ''Description: '', description tc, nl,
       tab, tab, ''Steps: '', join '', '' (steps tc), nl,
       tab, tab, ''Expected Result: '', expectedResult tc]"

text \<open>The three template literals of \<open>generatePlaywrightCodeForURL\<close>.\<close>

definition playwrightURLHead :: "ITestCase \<Rightarrow> TestData \<Rightarrow> string" where
  "playwrightURLHead tc td =
     concat
      [''import { test, expect } from '@playwright/test';'', nl,
       tab, nl,
       tab, ''// <U+914D><U+7F6E><U+6162><U+901F><U+6267><U+884C>'', nl,
       tab, ''test.use({'', nl,
       tab, ''  // <U+6BCF><U+4E2A><U+64CD><U+4F5C><U+5EF6><U+8FDF>500ms'', nl,
       tab, ''  launchOptions: {'', nl,
       tab, tab, ''slowMo: 500,'', nl,
       tab, ''  },'', nl,
       tab, ''  // <U+89C6><U+53E3><U+5927><U+5C0F>'', nl,
       tab, ''  viewport: { width: 1280, height: 720 },'', nl,
       tab, ''  // <U+5F55><U+5236><U+89C6><U+9891>'', nl,
       tab, ''  video: 'on','', nl,
       tab, ''  // <U+622A><U+56FE>'', nl,
       tab, ''  screenshot: 'on','', nl,
       tab, ''});'', nl,
       tab, nl,
       tab, ''test('', sq, name tc, sq, '', async ({ page }) => {'', nl,
       tab, ''  // <U+8BBE><U+7F6E><U+9ED8><U+8BA4><U+8D85><U+65F6>'', nl,
       tab, ''  test.setTimeout(60000);'', nl,
       tab, ''  '', nl,
       tab, ''  // <U+5BFC><U+822A><U+5230><U+767B><U+5F55><U+9875><U+9762>'', nl,
       tab, ''  await page.goto('', sq, tpl (url td), sq, '');'', nl,
       tab, ''  console.log('', sq, ''<U+1F4CD> Navigated to: '', tpl (url td), sq, '');'', nl,
       tab, ''  '', nl,
       tab, ''  // <U+7B49><U+5F85><U+9875><U+9762><U+5B8C><U+5168><U+52A0><U+8F7D>'', nl,
       tab, ''  await page.waitForLoadState('networkidle');'', nl,
       tab, ''  await page.waitForTimeout(2000); // <U+989D><U+5916><U+7B49><U+5F85>2<U+79D2>'', nl,
       tab, ''  '', nl,
       tab, ''  // <U+622A><U+56FE> - <U+521D><U+59CB><U+9875><U+9762>'', nl,
       tab, ''  await page.screenshot({ path: 'login-page.png' });'', nl,
       tab]"

definition playwrightURLLogin :: "TestData \<Rightarrow> string" where
  "playwrightURLLogin td =
     concat
      [nl,
       tab, ''  '', nl,
       tab, ''  // <U+1F50D> <U+67E5><U+627E><U+7528><U+6237><U+540D><U+8F93><U+5165><U+6846>'', nl,
       tab, ''  console.log('', sq, ''<U+1F50D> Finding username input...');'', nl,
       tab, ''  const usernameInput = page.locator('#username');'', nl,
       tab, ''  await usernameInput.scrollIntoViewIfNeeded();'', nl,
       tab, ''  await usernameInput.hover(); // <U+60AC><U+505C><U+6548><U+679C>'', nl,
       tab, ''  await page.waitForTimeout(1000);'', nl,
       tab, ''  '', nl,
       tab, ''  // <U+270F><U+FE0F> <U+8F93><U+5165><U+7528><U+6237><U+540D>'', nl,
       tab, ''  console.log('', sq, ''<U+270F><U+FE0F> Typing username: '', tpl (username td), sq, '');'', nl,
       tab, ''  await usernameInput.click();'', nl,
       tab, ''  await usernameInput.fill('', sq, sq, ''); // <U+5148><U+6E05><U+7A7A>'', nl,
       tab, ''  '', nl,
       tab, ''  // <U+9010><U+5B57><U+8F93><U+5165><U+FF0C><U+6A21><U+62DF><U+771F><U+4EBA><U+6253><U+5B57>'', nl,
       tab, ''  for (const char of '', sq, tpl (username td), sq, '') {'', nl,
       tab, tab, ''await usernameInput.type(char, { delay: 100 });'', nl,
       tab, ''  }'', nl,
       tab, ''  await page.waitForTimeout(1000);'', nl,
       tab, ''  '', nl,
       tab, ''  // <U+1F50D> <U+67E5><U+627E><U+5BC6><U+7801><U+8F93><U+5165><U+6846>'', nl,
       tab, ''  console.log('', sq, ''<U+1F50D> Finding password input...');'', nl,
       tab, ''  const passwordInput = page.locator('#password');'', nl,
       tab, ''  await passwordInput.scrollIntoViewIfNeeded();'', nl,
       tab, ''  await passwordInput.hover();'', nl,
       tab, ''  await page.waitForTimeout(1000);'', nl,
       tab, ''  '', nl,
       tab, ''  // <U+270F><U+FE0F> <U+8F93><U+5165><U+5BC6><U+7801>'', nl,
       tab, ''  console.log('', sq, ''<U+270F><U+FE0F> Typing password...');'', nl,
       tab, ''  await passwordInput.click();'', nl,
       tab, ''  await passwordInput.fill('', sq, sq, '');'', nl,
       tab, ''  '', nl,
       tab, ''  // <U+9010><U+5B57><U+8F93><U+5165><U+5BC6><U+7801>'', nl,
       tab, ''  for (const char of '', sq, tpl (password td), sq, '') {'', nl,
       tab, tab, ''await passwordInput.type(char, { delay: 100 });'', nl,
       tab, ''  }'', nl,
       tab, ''  await page.waitForTimeout(1500);'', nl,
       tab, ''  '', nl,
       tab, ''  // <U+1F4F8> <U+622A><U+56FE> - <U+586B><U+5199><U+5B8C><U+6210>'', nl,
       tab, ''  await page.screenshot({ path: 'filled-form.png' });'', nl,
       tab, ''  '', nl,
       tab, ''  // <U+1F5B1><U+FE0F> <U+67E5><U+627E><U+5E76><U+70B9><U+51FB><U+767B><U+5F55><U+6309><U+94AE>'', nl,
       tab, ''  console.log('', sq, ''<U+1F5B1><U+FE0F> Finding login button...');'', nl,
       tab, ''  const loginButton = page.locator('button[type=\"submit\"]');'', nl,
       tab, ''  await loginButton.scrollIntoViewIfNeeded();'', nl,
       tab, ''  await loginButton.hover(); // <U+60AC><U+505C><U+5728><U+6309><U+94AE><U+4E0A>'', nl,
       tab, ''  await page.waitForTimeout(1000);'', nl,
       tab, ''  '', nl,
       tab, ''  // <U+9AD8><U+4EAE><U+663E><U+793A><U+6309><U+94AE>'', nl,
       tab, ''  await loginButton.evaluate(el => {'', nl,
       tab, tab, ''el.style.border = '3px solid red';'', nl,
       tab, tab, ''el.style.boxShadow = '0 0 10px red';'', nl,
       tab, ''  });'', nl,
       tab, ''  await page.waitForTimeout(1000);'', nl,
       tab, ''  '', nl,
       tab, ''  console.log('', sq, ''<U+1F680> Clicking login button...');'', nl,
       tab, ''  await loginButton.click();'', nl,
       tab, ''  '', nl,
       tab, ''  // <U+7B49><U+5F85><U+5BFC><U+822A>'', nl,
       tab, ''  await page.waitForTimeout(2000);'', nl,
       tab, ''  '', nl,
       tab, ''  // <U+9A8C><U+8BC1><U+767B><U+5F55><U+6210><U+529F>'', nl,
       tab, ''  console.log('', sq, ''<U+2705> Verifying successful login...');'', nl,
       tab, ''  await expect(page).toHaveURL(/.*secure/);'', nl,
       tab, ''  '', nl,
       tab, ''  // <U+1F4F8> <U+6700><U+7EC8><U+622A><U+56FE>'', nl,
       tab, ''  await page.screenshot({ path: 'login-success.png' });'', nl,
       tab, ''  console.log('', sq, ''<U+2705> Test completed successfully!');'']"

definition playwrightURLTail :: "string" where
  "playwrightURLTail =
     concat
      [nl,
       tab, ''});'']"

definition generatePlaywrightCodeForURL :: "ITestCase \<Rightarrow> TestData \<Rightarrow> string" where
  "generatePlaywrightCodeForURL tc td =
     playwrightURLHead tc td
     @ (if includes_str (toLowerCase (name tc)) ''successful'' \<or> includes_str (toLowerCase (name tc)) ''valid''
        then playwrightURLLogin td else [])
     @ playwrightURLTail"

text \<open>The backtick, and the patterns \<open>/```(?:javascript|typescript|js|ts)?\n?/g\<close> and \<open>/```\n?/g\<close>.\<close>

definition bt :: char where
  "bt = CHR 0x60"

definition fencePattern :: re where
  "fencePattern =
     Seq [Chr bt, Chr bt, Chr bt,
          Opt (Alt [Str ''javascript'', Str ''typescript'', Str ''js'', Str ''ts'']),
          Opt (Chr NL)]"

definition barePattern :: re where
  "barePattern = Seq [Chr bt, Chr bt, Chr bt, Opt (Chr NL)]"

definition cleanGeneratedCode :: "string \<Rightarrow> string" where
  "cleanGeneratedCode code = trim (rx_remove False barePattern (rx_remove False fencePattern code))"

text \<open>
  \<open>cleanGeneratedCode\<close> applied to what the remote call returned: \<open>code.replace\<close> is a
  function only when \<open>code\<close> is a string.
\<close>

definition cleanResponse :: "jsval \<Rightarrow> error + string" where
  "cleanResponse code = (case code of Val (JStr s) \<Rightarrow> Inr (cleanGeneratedCode s) | _ \<Rightarrow> Inl TypeError)"



text \<open>The template literal of \<open>generateCypressCodeFallback\<close>, and the function.\<close>

definition cypressFallbackTemplate :: "ITestCase \<Rightarrow> string" where
  "cypressFallbackTemplate tc =
     (let steps_code = join (nl @ ''    '') (map stepToCypressCommand (steps tc));
          assertions = expectedResultToAssertion (expectedResult tc)
      in concat
          [''describe('', sq, name tc, sq, '', () => {'', nl,
           ''  beforeEach(() => {'', nl,
           ''    cy.visit('/');'', nl,
           ''  });'', nl,
           nl,
           ''  it('', sq, description tc, sq, '', () => {'', nl,
           ''    '', steps_code, nl,
           ''    '', nl,
           ''    // Verify: '', expectedResult tc, nl,
           ''    '', assertions, nl,
           ''  });'', nl,
           ''});''])"

definition generateCypressCodeFallback :: "ITestCase \<Rightarrow> string" where
  "generateCypressCodeFallback tc =
     (case urlData (testData tc) of
        Some td \<Rightarrow> generateCypressCodeForURL tc td
      | None \<Rightarrow> cypressFallbackTemplate tc)"

text \<open>The template literal of \<open>generatePlaywrightCodeFallback\<close>, and the function.\<close>

definition playwrightFallbackTemplate :: "ITestCase \<Rightarrow> string" where
  "playwrightFallbackTemplate tc =
     (let steps_code = join (nl @ ''    '') (map stepToPlaywrightCommand (steps tc));
          assertions = expectedResultToPlaywrightAssertion (expectedResult tc)
      in concat
          [''import { test, expect } from '@playwright/test';'', nl,
           nl,
           ''test.describe('', sq, name tc, sq, '', () => {'', nl,
           ''  test('', sq, description tc, sq, '', async ({ page }) => {'', nl,
           ''    await page.goto('/');'', nl,
           ''    '', steps_code, nl,
           ''    '', nl,
           ''    // Verify: '', expectedResult tc, nl,
           ''    '', assertions, nl,
           ''  });'', nl,
           ''});''])"

definition generatePlaywrightCodeFallback :: "ITestCase \<Rightarrow> string" where
  "generatePlaywrightCodeFallback tc =
     (case urlData (testData tc) of
        Some td \<Rightarrow> generatePlaywrightCodeForURL tc td
      | None \<Rightarrow> playwrightFallbackTemplate tc)"

text \<open>
  The result, and the requests sent. The second test of \<open>testData?.url\<close>, in the \<open>catch\<close>,
  is the source's.
\<close>

definition generateCypressCode :: "env \<Rightarrow> ITestCase \<Rightarrow> (error + string) \<times> request list" where
  "generateCypressCode e tc =
     (case urlData (testData tc) of
        Some td \<Rightarrow> (Inr (generateCypressCodeForURL tc td), [])
      | None \<Rightarrow>
          (let (r, sent) = callOpenAIWithModel e (cypressPrompt tc) cypressSystemPrompt (selectedModel e)
           in (case bind r cleanResponse of
                 Inr code \<Rightarrow> (Inr code, sent)
               | Inl err \<Rightarrow>
                   (case urlData (testData tc) of
                      Some td \<Rightarrow> (Inr (generateCypressCodeForURL tc td), sent)
                    | None \<Rightarrow> (Inr (generateCypressCodeFallback tc), sent)))))"

definition generatePlaywrightCode :: "env \<Rightarrow> ITestCase \<Rightarrow> (error + string) \<times> request list" where
  "generatePlaywrightCode e tc =
     (case urlData (testData tc) of
        Some td \<Rightarrow> (Inr (generatePlaywrightCodeForURL tc td), [])
      | None \<Rightarrow>
          (let (r, sent) = callOpenAIWithModel e (playwrightPrompt tc) playwrightSystemPrompt (selectedModel e)
           in (case bind r cleanResponse of
                 Inr code \<Rightarrow> (Inr code, sent)
               | Inl err \<Rightarrow>
                   (case urlData (testData tc) of
                      Some td \<Rightarrow> (Inr (generatePlaywrightCodeForURL tc td), sent)
                    | None \<Rightarrow> (Inr (generatePlaywrightCodeFallback tc), sent)))))"

section \<open>saveTestFiles\<close>









section \<open>Notions the statements use\<close>

text \<open>The position at which a value first stands in a list (the length of the list when it does not).\<close>

definition first_index :: "string list \<Rightarrow> string \<Rightarrow> nat" where
  "first_index xs a = length (takeWhile (\<lambda>y. y \<noteq> a) xs)"

text \<open>
  The capture of group 1 on the last line of \<open>ls\<close> that the pattern matches, \<open>d\<close> when it
  matches no line.
\<close>

definition lastCapture :: "string option \<Rightarrow> re \<Rightarrow> string list \<Rightarrow> string option" where
  "lastCapture d p ls =
     (case rev (List.map_filter (rx_search True p) ls) of [] \<Rightarrow> d | mt # _ \<Rightarrow> grp mt 1)"

text \<open>
  A token that the group of \<open>urlPattern\<close> can capture: \<open>http://\<close> or \<open>https://\<close> in any case,
  then at least one character, none of them white space.
\<close>

definition urlToken :: "string \<Rightarrow> bool" where
  "urlToken tok =
     ((map (canon True) (take 7 tok) = map (canon True) ''http://''
       \<and> drop 7 tok \<noteq> [] \<and> (\<forall>c \<in> set (drop 7 tok). \<not> isWhite c))
      \<or> (map (canon True) (take 8 tok) = map (canon True) ''https://''
       \<and> drop 8 tok \<noteq> [] \<and> (\<forall>c \<in> set (drop 8 tok). \<not> isWhite c)))"

text \<open>
  A line that matches \<open>urlPattern\<close>, said without the matcher: somewhere in it stands
  \<open>URL:\<close> (in any case), then white space or none, then \<open>http://\<close> or \<open>https://\<close> (in any
  case), then at least one character that is not white space.
\<close>

definition urlLine :: "string \<Rightarrow> bool" where
  "urlLine line =
     (\<exists>pre lbl ws sch tok rest.
        line = pre @ lbl @ ws @ sch @ tok @ rest
        \<and> map (canon True) lbl = map (canon True) ''URL:''
        \<and> (\<forall>c \<in> set ws. isWhite c)
        \<and> (map (canon True) sch = map (canon True) ''http://''
           \<or> map (canon True) sch = map (canon True) ''https://'')
        \<and> tok \<noteq> [] \<and> (\<forall>c \<in> set tok. \<not> isWhite c))"

text \<open>The test of a character class.\<close>

definition cls_ok :: "bool \<Rightarrow> bool \<Rightarrow> citem list \<Rightarrow> char \<Rightarrow> bool" where
  "cls_ok ci neg items c = ((\<exists>i \<in> set items. citem_has ci i c) \<noteq> neg)"

text \<open>
  A text in which no three backticks stand together, a text that starts with \<open>n\<close>
  backticks, and a pattern that is three backticks followed by optional parts only.
\<close>

primrec fenceFree :: "string \<Rightarrow> bool" where
  "fenceFree [] = True"
| "fenceFree (c # cs) = (\<not> startsWith (c # cs) [bt, bt, bt] \<and> fenceFree cs)"

definition lead :: "nat \<Rightarrow> string \<Rightarrow> bool" where
  "lead n s = (take n s = replicate n bt)"

definition fence_like :: "re \<Rightarrow> bool" where
  "fence_like r = (\<exists>rs. r = Seq (Chr bt # Chr bt # Chr bt # map Opt rs))"

text \<open>
  An instance of the library for the examples: \<open>URI\<close>s of scheme \<open>file\<close> without authority
  on a POSIX platform, each represented by its path. There \<open>URI.joinPath\<close> gives the path
  \<open>posix.join\<close> computes from the path and the fragments, which normalises: an empty
  segment and the segment \<open>.\<close> are dropped, and a segment \<open>..\<close> removes the segment before
  it. And \<open>fsPath\<close> is the path, without its first slash and with the letter in lower case
  when the path starts with a drive letter.
\<close>

fun normalizeString :: "bool \<Rightarrow> string list \<Rightarrow> string list \<Rightarrow> string list" where
  "normalizeString allowAboveRoot res [] = res"
| "normalizeString allowAboveRoot res (seg # segs) =
     (if seg = [] \<or> seg = ''.'' then normalizeString allowAboveRoot res segs
      else if seg = ''..'' then
        (if res \<noteq> [] \<and> last res \<noteq> ''..'' then normalizeString allowAboveRoot (butlast res) segs
         else if allowAboveRoot then normalizeString allowAboveRoot (res @ [''..'']) segs
         else normalizeString allowAboveRoot res segs)
      else normalizeString allowAboveRoot (res @ [seg]) segs)"

definition posix_normalize :: "string \<Rightarrow> string" where
  "posix_normalize path =
     (if path = [] then ''.''
      else
        let isAbsolute = (hd path = CHR ''/'');
            trailingSeparator = (last path = CHR ''/'');
            p = join ''/'' (normalizeString (\<not> isAbsolute) [] (split_on CHR ''/'' path))
        in if p = [] then (if isAbsolute then ''/'' else if trailingSeparator then ''./'' else ''.'')
           else (if isAbsolute then ''/'' else []) @ p @ (if trailingSeparator then ''/'' else []))"

definition posix_join :: "string list \<Rightarrow> string" where
  "posix_join paths =
     (let joined = join ''/'' (filter (\<lambda>arg. arg \<noteq> []) paths)
      in if joined = [] then ''.'' else posix_normalize joined)"

definition posix_joinPath :: "uri \<Rightarrow> string list \<Rightarrow> uri" where
  "posix_joinPath u pathFragment = posix_join (u # pathFragment)"

definition isLetter :: "char \<Rightarrow> bool" where
  "isLetter c = (let n = (of_char c :: nat) in (65 \<le> n \<and> n \<le> 90) \<or> (97 \<le> n \<and> n \<le> 122))"

definition posix_fsPath :: "uri \<Rightarrow> string" where
  "posix_fsPath u =
     (case u of
        a # d # c # rest \<Rightarrow>
          if a = CHR ''/'' \<and> isLetter d \<and> c = CHR '':'' then lowerChar d # c # rest else u
      | _ \<Rightarrow> u)"

text \<open>A path segment that normalisation leaves as it is.\<close>

definition plainSegment :: "string \<Rightarrow> bool" where
  "plainSegment s = (s \<noteq> [] \<and> CHR ''/'' \<notin> set s \<and> s \<noteq> ''.'' \<and> s \<noteq> ''..'')"

text \<open>
  Environments for the examples: no credential and no workspace; a credential and a
  workspace, with a \<open>fetch\<close> that rejects; and a credential with a remote capability whose
  answer is the JSON text of an object that has \<open>testCases\<close> and nothing else. And the
  descriptor of the login scenario.
\<close>

definition offline :: env where
  "offline = \<lparr>openaiApiKey = None, configuredModel = None, fetch = (\<lambda>_. Rejected),
              JSON_parse = (\<lambda>_. None), JSON_stringify = (\<lambda>_. []), workspaceFolder = None,
              joinPath = posix_joinPath, fsPath = posix_fsPath\<rparr>"

definition keyedButDown :: env where
  "keyedButDown = \<lparr>openaiApiKey = Some ''sk-test'', configuredModel = None, fetch = (\<lambda>_. Rejected),
              JSON_parse = (\<lambda>_. None), JSON_stringify = (\<lambda>_. []), workspaceFolder = Some ''/w'',
              joinPath = posix_joinPath, fsPath = posix_fsPath\<rparr>"

definition thinAnswerText :: string where
  "thinAnswerText = ''{\"testCases\":[{\"id\":\"t1\"}]}''"

definition thinAnswer :: env where
  "thinAnswer =
     \<lparr>openaiApiKey = Some ''sk-test'', configuredModel = None,
      fetch = (\<lambda>_. Responded
                 \<lparr>ok = True, statusText = ''OK'',
                  json_body = Some (JObj [(''choices'',
                                JArr [JObj [(''message'', JObj [(''content'', JStr thinAnswerText)])]])])\<rparr>),
      JSON_parse = (\<lambda>v. if v = Val (JStr thinAnswerText)
                          then Some (JObj [(''testCases'', JArr [JObj [(''id'', JStr ''t1'')]])])
                          else None),
      JSON_stringify = (\<lambda>_. []), workspaceFolder = Some ''/w'',
      joinPath = posix_joinPath, fsPath = posix_fsPath\<rparr>"

definition exampleData :: TestData where
  "exampleData = \<lparr>url = Some ''https://example.com/login'', username = Some ''u'', password = Some ''p''\<rparr>"

text \<open>
  The request \<open>analyzePRD\<close> sends; a transport that reports no success (\<open>fetch\<close> rejects, or
  the response is not \<open>ok\<close>); the body of the response; and the answer the body carries:
  what \<open>JSON.parse\<close> makes of \<open>choices[0].message.content\<close>, when the body is JSON, that
  read does not throw and the parse does not throw.
\<close>

definition analysisRequest :: "env \<Rightarrow> string \<Rightarrow> request" where
  "analysisRequest e prd =
     \<lparr>endpoint = openaiEndpoint, authorization = ''Bearer '' @ tpl (openaiApiKey e),
      model = selectedModel e, systemContent = analysisSystemPrompt, userContent = analysisPrompt prd\<rparr>"

definition transportFailed :: "fetch_result \<Rightarrow> bool" where
  "transportFailed r = (case r of Rejected \<Rightarrow> True | Responded resp \<Rightarrow> \<not> ok resp)"

definition bodyOf :: "fetch_result \<Rightarrow> json option" where
  "bodyOf r = (case r of Rejected \<Rightarrow> None | Responded resp \<Rightarrow> json_body resp)"

definition answerOf :: "env \<Rightarrow> json option \<Rightarrow> json option" where
  "answerOf e body =
     (case body of
        None \<Rightarrow> None
      | Some data \<Rightarrow>
          (case bind (getProp (Val data) ''choices'') (\<lambda>choices.
                bind (getProp choices ''0'') (\<lambda>choice.
                bind (getProp choice ''message'') (\<lambda>message.
                getProp message ''content''))) of
             Inl _ \<Rightarrow> None
           | Inr content \<Rightarrow> JSON_parse e content))"

text \<open>
  The expected shape of the answer, as the specification and the system prompt name it
  and as \<open>IPRDAnalysis\<close> declares it: an object whose \<open>features\<close>, \<open>userStories\<close>,
  \<open>acceptanceCriteria\<close> and \<open>testCases\<close> are arrays.
\<close>

definition isArrayAt :: "(string \<times> json) list \<Rightarrow> string \<Rightarrow> bool" where
  "isArrayAt kvs k = (case map_of kvs k of Some (JArr _) \<Rightarrow> True | _ \<Rightarrow> False)"

definition expectedShape :: "json \<Rightarrow> bool" where
  "expectedShape a =
     (case a of
        JObj kvs \<Rightarrow>
          isArrayAt kvs ''features'' \<and> isArrayAt kvs ''userStories''
          \<and> isArrayAt kvs ''acceptanceCriteria'' \<and> isArrayAt kvs ''testCases''
      | _ \<Rightarrow> False)"


section \<open>Facts about the matcher\<close>

lemma canon_False: "canon False c = c"
  by (simp add: canon_def)

lemma rx_Chr_mem:
  "st' \<in> set (rx ci (Chr a) (caps, s)) \<longleftrightarrow> (\<exists>c. s = c # snd st' \<and> canon ci a = canon ci c \<and> fst st' = caps)"
  by (cases st') (auto split: list.splits)

lemma rx_Cls_mem:
  "st' \<in> set (rx ci (Cls neg items) (caps, s)) \<longleftrightarrow>
     (\<exists>c. s = c # snd st' \<and> cls_ok ci neg items c \<and> fst st' = caps)"
  by (cases st') (auto simp: cls_ok_def split: list.splits)

lemma rx_Seq_mem:
  "st' \<in> set (rx ci (Seq (r # rs)) st) \<longleftrightarrow> (\<exists>mid \<in> set (rx ci r st). st' \<in> set (rx ci (Seq rs) mid))"
  by simp

lemma rx_Str_mem:
  "st' \<in> set (rx ci (Str p) (caps, s)) \<Longrightarrow>
     fst st' = caps \<and> (\<exists>x. s = x @ snd st' \<and> map (canon ci) x = map (canon ci) p)"
proof (induction p arbitrary: caps s)
  case Nil
  then show ?case by (simp add: Str_def)
next
  case (Cons a p)
  from Cons.prems obtain mid where mid: "mid \<in> set (rx ci (Chr a) (caps, s))"
    and st': "st' \<in> set (rx ci (Str p) mid)"
    by (auto simp: Str_def)
  from mid obtain c where c: "s = c # snd mid" "canon ci a = canon ci c" "fst mid = caps"
    unfolding rx_Chr_mem by blast
  from Cons.IH [of "fst mid" "snd mid"] st'
  obtain x where x: "fst st' = fst mid" "snd mid = x @ snd st'" "map (canon ci) x = map (canon ci) p"
    by auto
  have "s = (c # x) @ snd st'" using c x by simp
  moreover have "map (canon ci) (c # x) = map (canon ci) (a # p)" using c x by simp
  ultimately show ?case using c x by blast
qed

lemma rx_Star_Cls_Nil: "rx ci (Star (Cls neg items)) (caps, []) = [(caps, [])]"
  by simp

lemma rx_Star_Cls_Cons:
  "rx ci (Star (Cls neg items)) (caps, c # cs) =
     (if cls_ok ci neg items c then rx ci (Star (Cls neg items)) (caps, cs) else []) @ [(caps, c # cs)]"
  by (simp add: cls_ok_def)

lemma rx_Star_Cls_mem:
  "st' \<in> set (rx ci (Star (Cls neg items)) (caps, s)) \<Longrightarrow>
     fst st' = caps \<and> (\<exists>w. s = w @ snd st' \<and> (\<forall>c \<in> set w. cls_ok ci neg items c))"
proof (induction s)
  case Nil
  then show ?case by simp
next
  case (Cons c cs)
  show ?case
  proof (cases "st' = (caps, c # cs)")
    case True
    then show ?thesis by simp
  next
    case False
    with Cons.prems have ok: "cls_ok ci neg items c"
      and st': "st' \<in> set (rx ci (Star (Cls neg items)) (caps, cs))"
      by (auto simp: rx_Star_Cls_Cons simp del: rx.simps split: if_splits)
    from Cons.IH [OF st'] obtain w where "fst st' = caps" "cs = w @ snd st'"
      "\<forall>c \<in> set w. cls_ok ci neg items c" by blast
    with ok have "c # cs = (c # w) @ snd st'" "\<forall>c \<in> set (c # w). cls_ok ci neg items c" by auto
    with \<open>fst st' = caps\<close> show ?thesis by blast
  qed
qed

lemma rx_Plus_Cls_mem:
  "st' \<in> set (rx ci (Plus (Cls neg items)) (caps, s)) \<Longrightarrow>
     fst st' = caps \<and> (\<exists>w. s = w @ snd st' \<and> w \<noteq> [] \<and> (\<forall>c \<in> set w. cls_ok ci neg items c))"
proof -
  assume "st' \<in> set (rx ci (Plus (Cls neg items)) (caps, s))"
  then obtain mid where mid: "mid \<in> set (rx ci (Cls neg items) (caps, s))"
    and st': "st' \<in> set (rx ci (Star (Cls neg items)) mid)"
    by (auto simp: Plus_def simp del: rx.simps(2,8))
  from mid obtain c where c: "s = c # snd mid" "cls_ok ci neg items c" "fst mid = caps"
    unfolding rx_Cls_mem by blast
  from rx_Star_Cls_mem [of st' ci neg items "fst mid" "snd mid"] st'
  obtain w where w: "fst st' = fst mid" "snd mid = w @ snd st'" "\<forall>c \<in> set w. cls_ok ci neg items c"
    by auto
  have "s = (c # w) @ snd st'" "c # w \<noteq> []" "\<forall>c \<in> set (c # w). cls_ok ci neg items c"
    using c w by auto
  with c w show ?thesis by metis
qed

lemma rx_Opt_mem:
  "st' \<in> set (rx ci (Opt r) (caps, s)) \<Longrightarrow> st' = (caps, s) \<or> st' \<in> set (rx ci r (caps, s))"
  by auto

lemma rx_Cap_mem:
  "st' \<in> set (rx ci (Cap n r) (caps, s)) \<Longrightarrow>
     \<exists>mid \<in> set (rx ci r (caps, s)). st' = ((n, take (length s - length (snd mid)) s) # fst mid, snd mid)"
  by auto

lemma rx_Opts_nonempty: "(caps, s) \<in> set (rx ci (Seq (map Opt rs)) (caps, s))"
  by (induction rs) (auto intro: bexI [of _ "(caps, s)"])

lemma rx_search_groups:
  "rx_search ci r s = Some mt \<Longrightarrow>
     \<exists>pre suf rest. s = pre @ suf \<and> (groups mt, rest) \<in> set (rx ci r ([], suf))"
proof (induction s arbitrary: mt)
  case Nil
  show ?case
  proof (cases "rx ci r ([], [])")
    case Nil
    with Nil.prems show ?thesis by (simp add: rx_search.simps [of ci r "[]"])
  next
    case (Cons st sts)
    obtain caps rest where st: "st = (caps, rest)" by (cases st)
    with Cons Nil.prems have "groups mt = caps"
      by (auto simp: rx_search.simps [of ci r "[]"])
    moreover have "(caps, rest) \<in> set (rx ci r ([], []))" using Cons st by simp
    ultimately show ?thesis by fastforce
  qed
next
  case (Cons c cs)
  show ?case
  proof (cases "rx ci r ([], c # cs)")
    case Nil
    with Cons.prems obtain mt' where mt': "rx_search ci r cs = Some mt'"
      and mt: "mt = mt'\<lparr>skipped := c # skipped mt'\<rparr>"
      by (auto simp: rx_search.simps [of ci r "c # cs"])
    from Cons.IH [OF mt'] obtain pre suf rest where
      "cs = pre @ suf" "(groups mt', rest) \<in> set (rx ci r ([], suf))" by blast
    then have "c # cs = (c # pre) @ suf" "(groups mt, rest) \<in> set (rx ci r ([], suf))"
      using mt by simp_all
    then show ?thesis by blast
  next
    case (Cons st sts)
    obtain caps rest where st: "st = (caps, rest)" by (cases st)
    with Cons Cons.prems have "groups mt = caps"
      by (auto simp: rx_search.simps [of ci r "c # cs"])
    moreover have "(caps, rest) \<in> set (rx ci r ([], c # cs))" using Cons st by simp
    moreover have "c # cs = [] @ (c # cs)" by simp
    ultimately show ?thesis by blast
  qed
qed

lemma rx_Str_complete:
  "map (canon ci) x = map (canon ci) p \<Longrightarrow> (caps, rest) \<in> set (rx ci (Str p) (caps, x @ rest))"
proof (induction p arbitrary: x)
  case Nil
  then show ?case by (simp add: Str_def)
next
  case (Cons a p)
  then obtain c x' where x: "x = c # x'" "canon ci c = canon ci a" "map (canon ci) x' = map (canon ci) p"
    by (cases x) auto
  from Cons.IH [OF x(3)] have "(caps, rest) \<in> set (rx ci (Seq (map Chr p)) (caps, x' @ rest))"
    by (simp add: Str_def)
  with x show ?case by (simp add: Str_def)
qed

lemma rx_Star_Cls_self: "(caps, s) \<in> set (rx ci (Star (Cls neg items)) (caps, s))"
  by (cases s) (simp_all add: rx_Star_Cls_Cons rx_Star_Cls_Nil del: rx.simps(8))

lemma rx_Star_Cls_complete:
  "\<forall>c \<in> set w. cls_ok ci neg items c \<Longrightarrow>
     (caps, rest) \<in> set (rx ci (Star (Cls neg items)) (caps, w @ rest))"
proof (induction w)
  case Nil
  show ?case using rx_Star_Cls_self [of caps rest ci neg items] by simp
next
  case (Cons c w)
  then show ?case by (simp add: rx_Star_Cls_Cons del: rx.simps(8))
qed

lemma rx_Plus_Cls_complete:
  "w \<noteq> [] \<Longrightarrow> \<forall>c \<in> set w. cls_ok ci neg items c \<Longrightarrow>
     (caps, rest) \<in> set (rx ci (Plus (Cls neg items)) (caps, w @ rest))"
proof -
  assume "w \<noteq> []" and ok: "\<forall>c \<in> set w. cls_ok ci neg items c"
  then obtain c w' where w: "w = c # w'" by (cases w) auto
  with ok have c: "cls_ok ci neg items c" and w': "\<forall>c \<in> set w'. cls_ok ci neg items c" by auto
  have "(caps, w' @ rest) \<in> set (rx ci (Cls neg items) (caps, w @ rest))"
    unfolding rx_Cls_mem using c w by simp
  moreover have "(caps, rest) \<in> set (rx ci (Star (Cls neg items)) (caps, w' @ rest))"
    by (rule rx_Star_Cls_complete [OF w'])
  ultimately show ?thesis
    unfolding Plus_def rx_Seq_mem by (auto simp del: rx.simps(2,8))
qed

lemma rx_Seq_single: "st' \<in> set (rx ci r st) \<Longrightarrow> st' \<in> set (rx ci (Seq [r]) st)"
  by simp

lemma rx_Seq_step:
  "mid \<in> set (rx ci r st) \<Longrightarrow> st' \<in> set (rx ci (Seq rs) mid) \<Longrightarrow> st' \<in> set (rx ci (Seq (r # rs)) st)"
  unfolding rx_Seq_mem by blast

lemma rx_search_complete:
  "rx ci r ([], suf) \<noteq> [] \<Longrightarrow> rx_search ci r (pre @ suf) \<noteq> None"
proof (induction pre)
  case Nil
  then show ?case by (cases "rx ci r ([], suf)") (auto simp: rx_search.simps [of ci r suf])
next
  case (Cons c pre)
  then show ?case
    by (cases "rx ci r ([], c # pre @ suf)") (auto simp: rx_search.simps [of ci r "c # pre @ suf"])
qed

lemma rx_remove_Nil: "rx ci r ([], []) = [] \<Longrightarrow> rx_remove ci r [] = []"
  by (simp add: rx_remove.simps [of ci r "[]"] rx_search.simps [of ci r "[]"])

lemma rx_remove_skip:
  "rx ci r ([], c # cs) = [] \<Longrightarrow> rx_remove ci r (c # cs) = c # rx_remove ci r cs"
  by (simp add: rx_remove.simps [of ci r "c # cs"] rx_remove.simps [of ci r cs]
        rx_search.simps [of ci r "c # cs"] split: option.splits)

lemma rx_remove_here:
  assumes "rx ci r ([], s) = (caps, rest) # others" "length rest < length s"
  shows "rx_remove ci r s = rx_remove ci r rest"
proof -
  have "take (length s - length rest) s \<noteq> []" using assms(2) by auto
  with assms(1) show ?thesis
    by (simp add: rx_remove.simps [of ci r s] rx_search.simps [of ci r s])
qed

section \<open>URL mode: four fixed cases\<close>

text \<open>
  Claim C3. For every descriptor, \<open>generateLoginTestCasesForURL\<close> returns exactly four test
  cases, with the ids \<open>login-001\<close>, \<open>login-002\<close>, \<open>login-003\<close>, \<open>login-004\<close> in this order,
  each carrying the descriptor itself as its test data and the status \<open>pending\<close>.
\<close>

theorem generateLoginTestCasesForURL_four:
  "length (generateLoginTestCasesForURL td) = 4
   \<and> map id' (generateLoginTestCasesForURL td) = [''login-001'', ''login-002'', ''login-003'', ''login-004'']
   \<and> map testData (generateLoginTestCasesForURL td) = [Some td, Some td, Some td, Some td]
   \<and> map status (generateLoginTestCasesForURL td) = [Some pending, Some pending, Some pending, Some pending]"
  by (simp add: generateLoginTestCasesForURL_def)

section \<open>Properties of the parser\<close>

lemma map_canon_length: "map (canon ci) x = map (canon ci) p \<Longrightarrow> length x = length p"
  by (rule map_eq_imp_length_eq)

lemma cls_ok_nonspace: "cls_ok ci True [WS] c \<longleftrightarrow> \<not> isWhite c"
  by (simp add: cls_ok_def)

lemma url_capture:
  assumes "st' \<in> set (rx True urlPattern ([], s))"
  shows "\<exists>lbl ws sch tok.
           s = lbl @ ws @ sch @ tok @ snd st'
           \<and> map (canon True) lbl = map (canon True) ''URL:''
           \<and> (\<forall>c \<in> set ws. isWhite c)
           \<and> (map (canon True) sch = map (canon True) ''http://''
              \<or> map (canon True) sch = map (canon True) ''https://'')
           \<and> tok \<noteq> [] \<and> (\<forall>c \<in> set tok. \<not> isWhite c)
           \<and> map_of (fst st') 1 = Some (sch @ tok)"
proof -
  let ?inner = "Seq [Str ''http'', Opt (Chr CHR ''s''), Str ''://'', Plus (Cls True [WS])]"
  from assms obtain m1 m2 where
    m1: "m1 \<in> set (rx True (Str ''URL:'') ([], s))" and
    m2: "m2 \<in> set (rx True (Star (Cls False [WS])) m1)" and
    m3: "st' \<in> set (rx True (Cap 1 ?inner) m2)"
    unfolding urlPattern_def by (auto simp del: rx.simps(2,7,8,9) simp: rx_Seq_mem)
  from rx_Str_mem [of m1 True "''URL:''" "[]" s] m1
  obtain lbl where lbl: "s = lbl @ snd m1" "map (canon True) lbl = map (canon True) ''URL:''"
    by blast
  from rx_Star_Cls_mem [of m2 True False "[WS]" "fst m1" "snd m1"] m2
  obtain ws where ws: "snd m1 = ws @ snd m2" "\<forall>c \<in> set ws. isWhite c"
    by (auto simp: cls_ok_def)
  obtain caps2 s2 where m2eq: "m2 = (caps2, s2)" by (cases m2)
  from rx_Cap_mem [OF m3 [unfolded m2eq]] obtain mid where
    mid: "mid \<in> set (rx True ?inner (caps2, s2))" and
    st': "st' = ((1, take (length s2 - length (snd mid)) s2) # fst mid, snd mid)"
    by blast
  from mid obtain a b c where
    a: "a \<in> set (rx True (Str ''http'') (caps2, s2))" and
    b: "b \<in> set (rx True (Opt (Chr CHR ''s'')) a)" and
    c: "c \<in> set (rx True (Str ''://'') b)" and
    d: "mid \<in> set (rx True (Plus (Cls True [WS])) c)"
    by (auto simp del: rx.simps(1,2,7,8,9) simp: rx_Seq_mem)
  from rx_Str_mem [of a True "''http''" caps2 s2] a
  obtain x1 where x1: "s2 = x1 @ snd a" "map (canon True) x1 = map (canon True) ''http''" by blast
  from rx_Str_mem [of c True "''://''" "fst b" "snd b"] c
  obtain x3 where x3: "snd b = x3 @ snd c" "map (canon True) x3 = map (canon True) ''://''" by auto
  from rx_Plus_Cls_mem [of mid True True "[WS]" "fst c" "snd c"] d
  obtain tok where tok: "snd c = tok @ snd mid" "tok \<noteq> []" "\<forall>ch \<in> set tok. \<not> isWhite ch"
    by (auto simp: cls_ok_nonspace)
  from rx_Opt_mem [of b True "Chr CHR ''s''" "fst a" "snd a"] b
  consider (skip) "b = a" | (s) "b \<in> set (rx True (Chr CHR ''s'') (fst a, snd a))" by auto
  then obtain sch where sch: "s2 = (sch @ tok) @ snd mid"
    "map (canon True) sch = map (canon True) ''http://''
     \<or> map (canon True) sch = map (canon True) ''https://''"
  proof cases
    case skip
    have "s2 = ((x1 @ x3) @ tok) @ snd mid" using x1 x3 tok skip by simp
    moreover have "map (canon True) (x1 @ x3) = map (canon True) ''http://''"
      using x1(2) x3(2) by simp
    ultimately show ?thesis using that by blast
  next
    case s
    then obtain ch where ch: "snd a = ch # snd b" "canon True CHR ''s'' = canon True ch"
      unfolding rx_Chr_mem by blast
    have "s2 = ((x1 @ ch # x3) @ tok) @ snd mid" using x1 x3 tok ch by simp
    moreover have "map (canon True) (x1 @ ch # x3) = map (canon True) ''https://''"
      using x1(2) x3(2) ch(2) by simp
    ultimately show ?thesis using that by blast
  qed
  have cap: "take (length s2 - length (snd mid)) s2 = sch @ tok"
    by (subst (1 2) sch(1)) simp
  have "s = lbl @ ws @ sch @ tok @ snd st'"
    using lbl(1) ws(1) m2eq sch(1) st' by simp
  moreover have "map_of (fst st') 1 = Some (sch @ tok)" using st' cap by simp
  ultimately show ?thesis using lbl(2) ws(2) sch(2) tok(2,3) by blast
qed

lemma urlToken_shape:
  assumes "map (canon True) sch = map (canon True) ''http://''
         \<or> map (canon True) sch = map (canon True) ''https://''"
    and "tok \<noteq> []" and "\<forall>c \<in> set tok. \<not> isWhite c"
  shows "urlToken (sch @ tok)"
proof -
  from assms(1) show ?thesis
  proof
    assume a: "map (canon True) sch = map (canon True) ''http://''"
    from map_canon_length [OF a] have len: "length sch = 7" by simp
    then have "take 7 (sch @ tok) = sch" "drop 7 (sch @ tok) = tok" by simp_all
    with a assms(2,3) show ?thesis unfolding urlToken_def by (simp only:) simp
  next
    assume a: "map (canon True) sch = map (canon True) ''https://''"
    from map_canon_length [OF a] have len: "length sch = 8" by simp
    then have "take 8 (sch @ tok) = sch" "drop 8 (sch @ tok) = tok" by simp_all
    with a assms(2,3) show ?thesis unfolding urlToken_def by (simp only:) simp
  qed
qed

lemma url_match_token:
  assumes "rx_search True urlPattern line = Some mt"
  shows "\<exists>tok. grp mt 1 = Some tok \<and> urlToken tok"
proof -
  from rx_search_groups [OF assms] obtain pre suf rest where
    "(groups mt, rest) \<in> set (rx True urlPattern ([], suf))" by blast
  from url_capture [OF this] obtain lbl ws sch tok where
    sch: "map (canon True) sch = map (canon True) ''http://''
          \<or> map (canon True) sch = map (canon True) ''https://''"
    and tok: "tok \<noteq> []" "\<forall>c \<in> set tok. \<not> isWhite c"
    and cap: "map_of (fst (groups mt, rest)) 1 = Some (sch @ tok)"
    by blast
  from urlToken_shape [OF sch tok] cap show ?thesis by (simp add: grp_def)
qed

lemma url_inner_complete:
  assumes "map (canon True) sch = map (canon True) ''http://''
         \<or> map (canon True) sch = map (canon True) ''https://''"
    and "tok \<noteq> []" and "\<forall>c \<in> set tok. \<not> isWhite c"
  shows "(caps, rest) \<in> set (rx True
           (Seq [Str ''http'', Opt (Chr CHR ''s''), Str ''://'', Plus (Cls True [WS])])
           (caps, sch @ tok @ rest))"
proof -
  have tail: "(caps, rest) \<in> set (rx True (Seq [Str ''://'', Plus (Cls True [WS])]) (caps, x @ tok @ rest))"
    if "map (canon True) x = map (canon True) ''://''" for x
  proof (rule rx_Seq_step)
    show "(caps, tok @ rest) \<in> set (rx True (Str ''://'') (caps, x @ tok @ rest))"
      by (rule rx_Str_complete [OF that])
    show "(caps, rest) \<in> set (rx True (Seq [Plus (Cls True [WS])]) (caps, tok @ rest))"
      by (rule rx_Seq_single, rule rx_Plus_Cls_complete) (simp_all add: assms cls_ok_nonspace)
  qed
  from assms(1) show ?thesis
  proof
    assume "map (canon True) sch = map (canon True) ''http://''"
    then obtain c1 c2 c3 c4 c5 c6 c7 where sch: "sch = [c1, c2, c3, c4, c5, c6, c7]"
      and h: "map (canon True) [c1, c2, c3, c4] = map (canon True) ''http''"
      and t: "map (canon True) [c5, c6, c7] = map (canon True) ''://''"
      by (auto simp: map_eq_Cons_conv)
    have split: "sch @ tok @ rest = [c1, c2, c3, c4] @ ([c5, c6, c7] @ tok @ rest)"
      by (simp add: sch)
    show ?thesis
      unfolding split
    proof (rule rx_Seq_step [OF rx_Str_complete [OF h]], rule rx_Seq_step)
      show "(caps, [c5, c6, c7] @ tok @ rest)
          \<in> set (rx True (Opt (Chr CHR ''s'')) (caps, [c5, c6, c7] @ tok @ rest))"
        by simp
      show "(caps, rest)
          \<in> set (rx True (Seq [Str ''://'', Plus (Cls True [WS])]) (caps, [c5, c6, c7] @ tok @ rest))"
        by (rule tail [OF t])
    qed
  next
    assume "map (canon True) sch = map (canon True) ''https://''"
    then obtain c1 c2 c3 c4 c5 c6 c7 c8 where sch: "sch = [c1, c2, c3, c4, c5, c6, c7, c8]"
      and h: "map (canon True) [c1, c2, c3, c4] = map (canon True) ''http''"
      and s: "canon True CHR ''s'' = canon True c5"
      and t: "map (canon True) [c6, c7, c8] = map (canon True) ''://''"
      by (auto simp: map_eq_Cons_conv)
    have split: "sch @ tok @ rest = [c1, c2, c3, c4] @ (c5 # [c6, c7, c8] @ tok @ rest)"
      by (simp add: sch)
    show ?thesis
      unfolding split
    proof (rule rx_Seq_step [OF rx_Str_complete [OF h]], rule rx_Seq_step)
      show "(caps, [c6, c7, c8] @ tok @ rest)
          \<in> set (rx True (Opt (Chr CHR ''s'')) (caps, c5 # [c6, c7, c8] @ tok @ rest))"
        using s by simp
      show "(caps, rest)
          \<in> set (rx True (Seq [Str ''://'', Plus (Cls True [WS])]) (caps, [c6, c7, c8] @ tok @ rest))"
        by (rule tail [OF t])
    qed
  qed
qed

lemma url_line_matches:
  assumes "map (canon True) lbl = map (canon True) ''URL:''"
    and "\<forall>c \<in> set ws. isWhite c"
    and "map (canon True) sch = map (canon True) ''http://''
         \<or> map (canon True) sch = map (canon True) ''https://''"
    and "tok \<noteq> []" and "\<forall>c \<in> set tok. \<not> isWhite c"
  shows "rx_search True urlPattern (pre @ lbl @ ws @ sch @ tok @ rest) \<noteq> None"
proof -
  let ?inner = "Seq [Str ''http'', Opt (Chr CHR ''s''), Str ''://'', Plus (Cls True [WS])]"
  have 1: "([], ws @ sch @ tok @ rest) \<in> set (rx True (Str ''URL:'') ([], lbl @ ws @ sch @ tok @ rest))"
    by (rule rx_Str_complete [OF assms(1)])
  have 2: "([], sch @ tok @ rest) \<in> set (rx True (Star (Cls False [WS])) ([], ws @ sch @ tok @ rest))"
    by (rule rx_Star_Cls_complete) (simp add: assms(2) cls_ok_def)
  have 3: "([], rest) \<in> set (rx True ?inner ([], sch @ tok @ rest))"
    by (rule url_inner_complete [OF assms(3,4,5)])
  then have 4: "([(1, take (length (sch @ tok @ rest) - length rest) (sch @ tok @ rest))], rest)
      \<in> set (rx True (Cap 1 ?inner) ([], sch @ tok @ rest))"
    by (force simp del: rx.simps(1,2,3,4,7,8))
  have "([(1, take (length (sch @ tok @ rest) - length rest) (sch @ tok @ rest))], rest)
      \<in> set (rx True urlPattern ([], lbl @ ws @ sch @ tok @ rest))"
    unfolding urlPattern_def
    by (rule rx_Seq_step [OF 1], rule rx_Seq_step [OF 2], rule rx_Seq_single, rule 4)
  then have "rx True urlPattern ([], lbl @ ws @ sch @ tok @ rest) \<noteq> []" by auto
  then show ?thesis by (rule rx_search_complete)
qed

text \<open>The matcher finds \<open>urlPattern\<close> in a line exactly when the line has that form.\<close>

lemma urlLine_iff: "rx_search True urlPattern line \<noteq> None \<longleftrightarrow> urlLine line"
proof
  assume "rx_search True urlPattern line \<noteq> None"
  then obtain mt where "rx_search True urlPattern line = Some mt" by blast
  from rx_search_groups [OF this] obtain pre suf rest where
    line: "line = pre @ suf" and "(groups mt, rest) \<in> set (rx True urlPattern ([], suf))" by blast
  from url_capture [OF this(2)] obtain lbl ws sch tok where
    "suf = lbl @ ws @ sch @ tok @ snd (groups mt, rest)"
    "map (canon True) lbl = map (canon True) ''URL:''"
    "\<forall>c \<in> set ws. isWhite c"
    "map (canon True) sch = map (canon True) ''http://''
     \<or> map (canon True) sch = map (canon True) ''https://''"
    "tok \<noteq> []" "\<forall>c \<in> set tok. \<not> isWhite c"
    by blast
  with line show "urlLine line" unfolding urlLine_def by blast
next
  assume "urlLine line"
  then obtain pre lbl ws sch tok rest where
    "line = pre @ lbl @ ws @ sch @ tok @ rest"
    "map (canon True) lbl = map (canon True) ''URL:''"
    "\<forall>c \<in> set ws. isWhite c"
    "map (canon True) sch = map (canon True) ''http://''
     \<or> map (canon True) sch = map (canon True) ''https://''"
    "tok \<noteq> []" "\<forall>c \<in> set tok. \<not> isWhite c"
    unfolding urlLine_def by blast
  with url_line_matches [of lbl ws sch tok pre rest]
  show "rx_search True urlPattern line \<noteq> None" by simp
qed

lemma urlLine_some:
  "(\<exists>line \<in> set ls. urlLine line) \<longleftrightarrow> (\<exists>line \<in> set ls. rx_search True urlPattern line \<noteq> None)"
  by (simp only: urlLine_iff)

lemma urlLine_none:
  "(\<forall>line \<in> set ls. \<not> urlLine line) \<longleftrightarrow> (\<forall>line \<in> set ls. rx_search True urlPattern line = None)"
proof -
  have "\<not> urlLine line \<longleftrightarrow> rx_search True urlPattern line = None" for line
    using urlLine_iff [of line] by (cases "rx_search True urlPattern line") simp_all
  then show ?thesis by (simp only:)
qed

lemma urlToken_nonempty: "urlToken tok \<Longrightarrow> tok \<noteq> []"
  by (auto simp: urlToken_def)

lemma lastCapture_Nil: "lastCapture d p [] = d"
  by (simp add: lastCapture_def List.map_filter_def)

lemma lastCapture_snoc:
  "lastCapture d p (ls @ [l]) =
     (case rx_search True p l of None \<Rightarrow> lastCapture d p ls | Some mt \<Rightarrow> grp mt 1)"
  by (simp add: lastCapture_def List.map_filter_def split: option.splits)

lemma parseLine_apply:
  "parseLine \<lparr>url = u, username = n, password = p\<rparr> l =
     \<lparr>url = (case rx_search True urlPattern l of None \<Rightarrow> u | Some mt \<Rightarrow> grp mt 1),
      username = (case rx_search True usernamePattern l of None \<Rightarrow> n | Some mt \<Rightarrow> grp mt 1),
      password = (case rx_search True passwordPattern l of None \<Rightarrow> p | Some mt \<Rightarrow> grp mt 1)\<rparr>"
  by (simp add: parseLine_def Let_def split: option.splits)

lemma foldl_parseLine:
  "foldl parseLine td ls =
     \<lparr>url = lastCapture (url td) urlPattern ls,
      username = lastCapture (username td) usernamePattern ls,
      password = lastCapture (password td) passwordPattern ls\<rparr>"
proof (induction ls rule: rev_induct)
  case Nil
  show ?case by (simp add: lastCapture_Nil)
next
  case (snoc l ls)
  have "foldl parseLine td (ls @ [l]) = parseLine (foldl parseLine td ls) l" by simp
  also have "\<dots> = parseLine \<lparr>url = lastCapture (url td) urlPattern ls,
      username = lastCapture (username td) usernamePattern ls,
      password = lastCapture (password td) passwordPattern ls\<rparr> l"
    by (simp only: snoc.IH)
  also have "\<dots> = \<lparr>url = lastCapture (url td) urlPattern (ls @ [l]),
      username = lastCapture (username td) usernamePattern (ls @ [l]),
      password = lastCapture (password td) passwordPattern (ls @ [l])\<rparr>"
    by (simp add: parseLine_apply lastCapture_snoc)
  finally show ?case .
qed

lemma parseTestDataFromPRD_eq:
  "parseTestDataFromPRD prd =
     (if truthy (lastCapture None urlPattern (split_on NL prd))
      then Some \<lparr>url = lastCapture None urlPattern (split_on NL prd),
                 username = lastCapture None usernamePattern (split_on NL prd),
                 password = lastCapture None passwordPattern (split_on NL prd)\<rparr>
      else None)"
  by (simp add: parseTestDataFromPRD_def Let_def foldl_parseLine)

lemma lastCapture_none:
  "\<forall>l \<in> set ls. rx_search True p l = None \<Longrightarrow> lastCapture d p ls = d"
  by (induction ls rule: rev_induct) (simp_all add: lastCapture_Nil lastCapture_snoc)

lemma lastCapture_some:
  "\<exists>l \<in> set ls. rx_search True p l \<noteq> None \<Longrightarrow>
     \<exists>l \<in> set ls. \<exists>mt. rx_search True p l = Some mt \<and> lastCapture d p ls = grp mt 1"
proof (induction ls rule: rev_induct)
  case Nil
  then show ?case by simp
next
  case (snoc l ls)
  show ?case
  proof (cases "rx_search True p l")
    case None
    with snoc.prems have "\<exists>l \<in> set ls. rx_search True p l \<noteq> None" by auto
    from snoc.IH [OF this] None show ?thesis by (auto simp: lastCapture_snoc)
  next
    case (Some mt)
    then show ?thesis by (auto simp: lastCapture_snoc)
  qed
qed

text \<open>
  Claim C4. When a line of the text holds \<open>URL:\<close> followed by an \<open>http(s)://\<close> token (in
  any case), \<open>parseTestDataFromPRD\<close> returns a descriptor whose \<open>url\<close> is exactly what the
  group of the pattern captured on such a line, a token of the form \<open>http(s)://\<close> followed
  by characters that are not white space, whatever the text says about a username or a
  password; when no line has that form, it returns no descriptor.
\<close>

theorem parseTestDataFromPRD_url:
  "((\<exists>line \<in> set (split_on NL prd). urlLine line) \<longrightarrow>
      (\<exists>td tok. parseTestDataFromPRD prd = Some td \<and> url td = Some tok \<and> urlToken tok
         \<and> (\<exists>line \<in> set (split_on NL prd). \<exists>mt.
               rx_search True urlPattern line = Some mt \<and> grp mt 1 = Some tok)))
   \<and> ((\<forall>line \<in> set (split_on NL prd). \<not> urlLine line) \<longrightarrow>
      parseTestDataFromPRD prd = None)"
proof (intro conjI impI)
  assume "\<exists>line \<in> set (split_on NL prd). urlLine line"
  then have "\<exists>line \<in> set (split_on NL prd). rx_search True urlPattern line \<noteq> None"
    by (simp only: urlLine_some)
  from lastCapture_some [OF this, of None] obtain line mt where
    line: "line \<in> set (split_on NL prd)" and mt: "rx_search True urlPattern line = Some mt"
    and last: "lastCapture None urlPattern (split_on NL prd) = grp mt 1"
    by blast
  from url_match_token [OF mt] obtain tok where tok: "grp mt 1 = Some tok" "urlToken tok"
    by blast
  have "truthy (lastCapture None urlPattern (split_on NL prd))"
    using last tok urlToken_nonempty by simp
  then obtain td where "parseTestDataFromPRD prd = Some td"
    "url td = lastCapture None urlPattern (split_on NL prd)"
    by (simp add: parseTestDataFromPRD_eq)
  with last tok line mt
  show "\<exists>td tok. parseTestDataFromPRD prd = Some td \<and> url td = Some tok \<and> urlToken tok
         \<and> (\<exists>line \<in> set (split_on NL prd). \<exists>mt.
               rx_search True urlPattern line = Some mt \<and> grp mt 1 = Some tok)"
    by auto
next
  assume "\<forall>line \<in> set (split_on NL prd). \<not> urlLine line"
  then have "\<forall>line \<in> set (split_on NL prd). rx_search True urlPattern line = None"
    by (simp only: urlLine_none)
  from lastCapture_none [OF this, of None]
  show "parseTestDataFromPRD prd = None"
    by (simp add: parseTestDataFromPRD_eq)
qed

theorem parseTestDataFromPRD_url_witness:
  "(\<exists>td tok. parseTestDataFromPRD
        (''Test login for:'' @ [NL] @ ''URL: https://example.com/login'' @ [NL]
          @ ''Username: u'' @ [NL] @ ''Password: p'') = Some td
      \<and> url td = Some tok \<and> urlToken tok)
   \<and> parseTestDataFromPRD
        (''Test login for:'' @ [NL] @ ''URL: https://example.com/login'' @ [NL]
          @ ''Username: u'' @ [NL] @ ''Password: p'')
       = Some \<lparr>url = Some ''https://example.com/login'', username = Some ''u'', password = Some ''p''\<rparr>
   \<and> parseTestDataFromPRD ''Test the search page'' = None"
proof -
  let ?x = "''Test login for:'' @ [NL] @ ''URL: https://example.com/login'' @ [NL]
          @ ''Username: u'' @ [NL] @ ''Password: p''"
  let ?y = "''Test the search page''"
  have "\<exists>line \<in> set (split_on NL ?x). rx_search True urlPattern line \<noteq> None" by code_simp
  then have a: "\<exists>line \<in> set (split_on NL ?x). urlLine line" by (simp only: urlLine_some)
  have "\<forall>line \<in> set (split_on NL ?y). rx_search True urlPattern line = None" by code_simp
  then have b: "\<forall>line \<in> set (split_on NL ?y). \<not> urlLine line" by (simp only: urlLine_none)
  have c: "parseTestDataFromPRD ?x
       = Some \<lparr>url = Some ''https://example.com/login'', username = Some ''u'', password = Some ''p''\<rparr>"
    by code_simp
  from parseTestDataFromPRD_url [of ?x] a
  have "\<exists>td tok. parseTestDataFromPRD ?x = Some td \<and> url td = Some tok \<and> urlToken tok" by blast
  moreover from parseTestDataFromPRD_url [of ?y] b have "parseTestDataFromPRD ?y = None" by blast
  ultimately show ?thesis using c by blast
qed

text \<open>
  Claim C10. When several lines match the pattern of a field, the descriptor holds the
  capture of the last of them: each of \<open>url\<close>, \<open>username\<close> and \<open>password\<close> is the capture on
  the last line its own pattern matches (and absent when that pattern matches no line).
\<close>

theorem parseTestDataFromPRD_last_wins:
  "parseTestDataFromPRD prd = Some td \<Longrightarrow>
     url td = lastCapture None urlPattern (split_on NL prd)
     \<and> username td = lastCapture None usernamePattern (split_on NL prd)
     \<and> password td = lastCapture None passwordPattern (split_on NL prd)"
  by (auto simp: parseTestDataFromPRD_eq split: if_splits)

theorem parseTestDataFromPRD_last_wins_witness:
  "parseTestDataFromPRD
     (''URL: http://a'' @ [NL] @ ''Password: p'' @ [NL] @ ''url: https://b Password: q'')
     = Some \<lparr>url = Some ''https://b'', username = None, password = Some ''q''\<rparr>
   \<and> lastCapture None urlPattern
        (split_on NL (''URL: http://a'' @ [NL] @ ''Password: p'' @ [NL] @ ''url: https://b Password: q''))
       = Some ''https://b''
   \<and> lastCapture None usernamePattern
        (split_on NL (''URL: http://a'' @ [NL] @ ''Password: p'' @ [NL] @ ''url: https://b Password: q''))
       = None
   \<and> lastCapture None passwordPattern
        (split_on NL (''URL: http://a'' @ [NL] @ ''Password: p'' @ [NL] @ ''url: https://b Password: q''))
       = Some ''q''"
proof -
  let ?x = "''URL: http://a'' @ [NL] @ ''Password: p'' @ [NL] @ ''url: https://b Password: q''"
  have h: "parseTestDataFromPRD ?x
     = Some \<lparr>url = Some ''https://b'', username = None, password = Some ''q''\<rparr>"
    by code_simp
  from parseTestDataFromPRD_last_wins [OF h] h show ?thesis by simp
qed

section \<open>Properties of keyword mode\<close>

text \<open>
  Claim C5, as amended. \<open>generateTestCasesFallback\<close> looks in the lower-cased text for
  \<open>login\<close>, then for \<open>cart\<close> or \<open>shopping\<close>, then for \<open>search\<close>, and returns the canned cases
  of the domains found, concatenated in this order (two for login, two for cart, one
  for search); when it finds none of the four words it returns the one generic case
  \<open>generic-001\<close>. The result is a function of the text alone.
\<close>

theorem generateTestCasesFallback_domains:
  "generateTestCasesFallback prd =
     (let t = toLowerCase prd;
          cs = (if includes_str t ''login'' then generateLoginTestCases else [])
             @ (if includes_str t ''cart'' \<or> includes_str t ''shopping'' then generateCartTestCases else [])
             @ (if includes_str t ''search'' then generateSearchTestCases else [])
      in if cs = [] then [generateGenericTestCase] else cs)
   \<and> map id' generateLoginTestCases = [''login-001'', ''login-002'']
   \<and> map id' generateCartTestCases = [''cart-001'', ''cart-002'']
   \<and> map id' generateSearchTestCases = [''search-001'']
   \<and> id' generateGenericTestCase = ''generic-001''"
  by (simp add: generateTestCasesFallback_def Let_def generateLoginTestCases_def
        generateCartTestCases_def generateSearchTestCases_def generateGenericTestCase_def)

text \<open>
  The claim as stated fails: the text \<open>shopping\<close> holds none of \<open>login\<close>, \<open>cart\<close>, \<open>search\<close>,
  and the result is the two cart cases, not the generic case.
\<close>

theorem generateTestCasesFallback_shopping_counterexample:
  "\<not> includes_str (toLowerCase ''shopping'') ''login''
   \<and> \<not> includes_str (toLowerCase ''shopping'') ''cart''
   \<and> \<not> includes_str (toLowerCase ''shopping'') ''search''
   \<and> generateTestCasesFallback ''shopping'' = generateCartTestCases
   \<and> generateTestCasesFallback ''shopping'' \<noteq> [generateGenericTestCase]"
  by code_simp

section \<open>Properties of the step translators\<close>

lemma stepToCypressCommand_comment:
  "\<not> includes_str (toLowerCase step) ''navigate'' \<Longrightarrow> \<not> includes_str (toLowerCase step) ''go to'' \<Longrightarrow>
   \<not> includes_str (toLowerCase step) ''click'' \<Longrightarrow> \<not> includes_str (toLowerCase step) ''enter'' \<Longrightarrow>
   \<not> includes_str (toLowerCase step) ''type'' \<Longrightarrow> \<not> includes_str (toLowerCase step) ''select'' \<Longrightarrow>
   \<not> includes_str (toLowerCase step) ''verify'' \<Longrightarrow> \<not> includes_str (toLowerCase step) ''check'' \<Longrightarrow>
   stepToCypressCommand step = ''// '' @ step"
  by (simp add: stepToCypressCommand_def)

lemma stepToPlaywrightCommand_comment:
  "\<not> includes_str (toLowerCase step) ''navigate'' \<Longrightarrow> \<not> includes_str (toLowerCase step) ''go to'' \<Longrightarrow>
   \<not> includes_str (toLowerCase step) ''click'' \<Longrightarrow> \<not> includes_str (toLowerCase step) ''enter'' \<Longrightarrow>
   \<not> includes_str (toLowerCase step) ''type'' \<Longrightarrow>
   \<not> includes_str (toLowerCase step) ''verify'' \<Longrightarrow> \<not> includes_str (toLowerCase step) ''check'' \<Longrightarrow>
   stepToPlaywrightCommand step = ''// '' @ step"
  by (simp add: stepToPlaywrightCommand_def)

lemma select_step:
  "\<not> includes_str (toLowerCase step) ''navigate'' \<Longrightarrow> \<not> includes_str (toLowerCase step) ''go to'' \<Longrightarrow>
   \<not> includes_str (toLowerCase step) ''click'' \<Longrightarrow> \<not> includes_str (toLowerCase step) ''enter'' \<Longrightarrow>
   \<not> includes_str (toLowerCase step) ''type'' \<Longrightarrow> includes_str (toLowerCase step) ''select'' \<Longrightarrow>
   \<not> includes_str (toLowerCase step) ''verify'' \<Longrightarrow> \<not> includes_str (toLowerCase step) ''check'' \<Longrightarrow>
   stepToCypressCommand step = ''cy.get('' @ sq @ extractElement step @ sq @ '').select('option');''
   \<and> stepToPlaywrightCommand step = ''// '' @ step"
  by (simp add: stepToCypressCommand_def stepToPlaywrightCommand_def)

text \<open>
  Claim C6. The step \<open>Click the login button\<close> becomes the click command on the button
  selector in both translators. A step whose only keyword is \<open>select\<close> becomes the select
  command in \<open>stepToCypressCommand\<close>; \<open>stepToPlaywrightCommand\<close> has no case for \<open>select\<close> and
  returns the comment that echoes the step.
\<close>

theorem stepToPlaywrightCommand_select:
  "stepToCypressCommand ''Click the login button'' = ''cy.get('[data-test=\"button\"]').click();''
   \<and> stepToPlaywrightCommand ''Click the login button'' = ''await page.click('[data-test=\"button\"]');''
   \<and> stepToCypressCommand ''Select country from dropdown''
       = ''cy.get('[data-test=\"element\"]').select('option');''
   \<and> stepToPlaywrightCommand ''Select country from dropdown'' = ''// Select country from dropdown''"
  by code_simp

section \<open>Properties of the heuristic extractors\<close>

text \<open>
  In every match of a feature or criteria pattern group 1 took part: \<open>match[1]\<close> is a
  string, and \<open>match[1].trim()\<close> does not throw.
\<close>

lemma rx_Seq_last_Cap:
  "st' \<in> set (rx ci (Seq (rs @ [Cap n r])) st) \<Longrightarrow> \<exists>x caps. fst st' = (n, x) # caps"
proof (induction rs arbitrary: st)
  case Nil
  then show ?case by (cases st) auto
next
  case (Cons a rs)
  then show ?case by auto
qed

lemma rx_matchAll_member:
  "mt \<in> set (rx_matchAll ci r s) \<Longrightarrow> \<exists>s'. rx_search ci r s' = Some mt"
proof (induction ci r s rule: rx_matchAll.induct)
  case (1 ci r s)
  show ?case
  proof (cases "rx_search ci r s")
    case None
    with "1.prems" show ?thesis by (simp add: rx_matchAll.simps [of ci r s])
  next
    case (Some m0)
    show ?thesis
    proof (cases "mt = m0")
      case True
      with Some show ?thesis by blast
    next
      case False
      show ?thesis
      proof (cases "whole m0 = []")
        case True
        with "1.prems" Some False obtain c t where
          "remaining m0 = c # t" "mt \<in> set (rx_matchAll ci r t)"
          by (cases "remaining m0") (auto simp: rx_matchAll.simps [of ci r s])
        with "1.IH"(1) [OF Some True] show ?thesis by blast
      next
        case nonempty: False
        with "1.prems" Some False have "mt \<in> set (rx_matchAll ci r (remaining m0))"
          by (auto simp: rx_matchAll.simps [of ci r s])
        with "1.IH"(2) [OF Some nonempty] show ?thesis by blast
      qed
    qed
  qed
qed

lemma group1_present:
  assumes "pattern \<in> set featurePatterns \<union> set criteriaPatterns"
    and "mt \<in> set (rx_matchAll True pattern prd)"
  shows "grp mt 1 = Some (group1 mt)"
proof -
  from assms(1) obtain rs r where p: "pattern = Seq (rs @ [Cap 1 r])"
    by (auto simp: featurePatterns_def criteriaPatterns_def
        intro: exI [of _ "[Str ''feature'', Opt (Cls False [C CHR ''s'']), Chr CHR '':'', Star (Cls False [WS])]"]
               exI [of _ "[Str ''functionality'', Opt (Cls False [C CHR ''i'', C CHR ''e'', C CHR ''s'']), Chr CHR '':'', Star (Cls False [WS])]"]
               exI [of _ "[Str ''requirement'', Opt (Cls False [C CHR ''s'']), Chr CHR '':'', Star (Cls False [WS])]"]
               exI [of _ "[Str ''acceptance criteri'', Cls False [C CHR ''a'', C CHR ''|'', C CHR ''o'', C CHR ''n''], Chr CHR '':'', Star (Cls False [WS])]"]
               exI [of _ "[Str ''must'', Plus (Cls False [WS])]"]
               exI [of _ "[Str ''should'', Plus (Cls False [WS])]"])
  from rx_matchAll_member [OF assms(2)] obtain s' where "rx_search True pattern s' = Some mt"
    by blast
  from rx_search_groups [OF this] obtain s'' rest where
    "(groups mt, rest) \<in> set (rx True pattern ([], s''))" by blast
  from rx_Seq_last_Cap [OF this [unfolded p]] obtain x caps where "groups mt = (1, x) # caps"
    by auto
  then show ?thesis by (simp add: grp_def group1_def)
qed

lemma new_Set_snoc:
  "new_Set (xs @ [x]) = (if x \<in> set (new_Set xs) then new_Set xs else new_Set xs @ [x])"
  by (simp add: new_Set_def)

lemma set_new_Set: "set (new_Set xs) = set xs"
  by (induction xs rule: rev_induct) (auto simp: new_Set_snoc, simp add: new_Set_def)

lemma distinct_new_Set: "distinct (new_Set xs)"
  by (induction xs rule: rev_induct) (auto simp: new_Set_snoc, simp add: new_Set_def)

lemma first_index_append: "a \<in> set xs \<Longrightarrow> first_index (xs @ ys) a = first_index xs a"
  by (simp add: first_index_def takeWhile_append1)

lemma first_index_less: "a \<in> set xs \<Longrightarrow> first_index xs a < length xs"
  unfolding first_index_def by (induction xs) auto

lemma first_index_new: "a \<notin> set xs \<Longrightarrow> first_index (xs @ [a]) a = length xs"
  unfolding first_index_def by (induction xs) auto

lemma new_Set_order:
  "sorted_wrt (\<lambda>a b. first_index xs a < first_index xs b) (new_Set xs)"
proof (induction xs rule: rev_induct)
  case Nil
  show ?case by (simp add: new_Set_def)
next
  case (snoc x xs)
  have same: "sorted_wrt (\<lambda>a b. first_index (xs @ [x]) a < first_index (xs @ [x]) b) (new_Set xs)"
    using snoc.IH
    by (rule sorted_wrt_mono_rel [rotated]) (simp add: set_new_Set first_index_append)
  show ?case
  proof (cases "x \<in> set xs")
    case True
    with same show ?thesis by (simp add: new_Set_snoc set_new_Set)
  next
    case False
    have "\<forall>a \<in> set (new_Set xs). first_index (xs @ [x]) a < first_index (xs @ [x]) x"
      using False by (simp add: set_new_Set first_index_append first_index_less first_index_new)
    with same False show ?thesis
      by (simp add: new_Set_snoc set_new_Set sorted_wrt_append)
  qed
qed

text \<open>
  Claim C8. The extractors are functions of the text alone. The features returned hold
  no value twice, hold exactly the values pushed, and stand in the order in which each
  was first pushed. The user stories and the acceptance criteria are not deduplicated:
  there are texts for which a story, and a criterion, is returned twice.
\<close>

theorem extractors_dedup_asymmetry:
  "distinct (extractFeatures prd)
   \<and> set (extractFeatures prd) = set (rawFeatures prd)
   \<and> sorted_wrt (\<lambda>a b. first_index (rawFeatures prd) a < first_index (rawFeatures prd) b)
        (extractFeatures prd)
   \<and> extractUserStories ''As a user, I want X. As a user, I want X.''
       = [''As a user, I want X'', ''As a user, I want X'']
   \<and> extractAcceptanceCriteria (''must work'' @ [NL] @ ''must work'') = [''work'', ''work'']"
proof (intro conjI)
  show "distinct (extractFeatures prd)" by (simp add: extractFeatures_def distinct_new_Set)
  show "set (extractFeatures prd) = set (rawFeatures prd)"
    by (simp add: extractFeatures_def set_new_Set)
  show "sorted_wrt (\<lambda>a b. first_index (rawFeatures prd) a < first_index (rawFeatures prd) b)
        (extractFeatures prd)"
    unfolding extractFeatures_def by (rule new_Set_order)
  show "extractUserStories ''As a user, I want X. As a user, I want X.''
       = [''As a user, I want X'', ''As a user, I want X'']"
    by code_simp
  show "extractAcceptanceCriteria (''must work'' @ [NL] @ ''must work'') = [''work'', ''work'']"
    by code_simp
qed

section \<open>Idempotence of cleanGeneratedCode\<close>

lemma lead_simps:
  "lead 0 s" "\<not> lead (Suc n) []" "lead (Suc n) (c # cs) \<longleftrightarrow> c = bt \<and> lead n cs"
  by (auto simp: lead_def)

lemma startsWith_lead: "startsWith s [bt, bt, bt] \<longleftrightarrow> lead 3 s"
  by (simp add: startsWith_def lead_def numeral_3_eq_3)

lemma lead_mono:
  assumes "lead m s" "n \<le> m"
  shows "lead n s"
proof -
  have "take n s = take n (take m s)" using assms(2) by (simp add: min_absorb1)
  also have "\<dots> = take n (replicate m bt)" using assms(1) by (simp only: lead_def)
  also have "\<dots> = replicate n bt" using assms(2) by (simp add: min_absorb1)
  finally show ?thesis by (simp add: lead_def)
qed

lemma fence_like_nomatch:
  assumes "fence_like r" "\<not> lead 3 s"
  shows "rx False r ([], s) = []"
proof -
  from assms(1) obtain rs where r: "r = Seq (Chr bt # Chr bt # Chr bt # map Opt rs)"
    by (auto simp: fence_like_def)
  show ?thesis
  proof (cases s)
    case Nil
    then show ?thesis by (simp add: r)
  next
    case (Cons a s1)
    show ?thesis
    proof (cases s1)
      case Nil
      with Cons show ?thesis by (simp add: r canon_False)
    next
      case (Cons b s2)
      show ?thesis
      proof (cases s2)
        case Nil
        with Cons \<open>s = a # s1\<close> show ?thesis by (simp add: r canon_False)
      next
        case (Cons c s3)
        with \<open>s1 = b # s2\<close> \<open>s = a # s1\<close> assms(2)
        have "\<not> (a = bt \<and> b = bt \<and> c = bt)"
          by (auto simp: lead_def numeral_3_eq_3)
        with Cons \<open>s1 = b # s2\<close> \<open>s = a # s1\<close> show ?thesis
          by (auto simp: r canon_False)
      qed
    qed
  qed
qed

lemma fence_like_match:
  assumes "fence_like r" "lead 3 s"
  shows "\<exists>caps rest others. rx False r ([], s) = (caps, rest) # others \<and> length rest < length s"
proof -
  from assms(1) obtain rs where r: "r = Seq (Chr bt # Chr bt # Chr bt # map Opt rs)"
    by (auto simp: fence_like_def)
  from assms(2) obtain s3 where s: "s = bt # bt # bt # s3"
    by (cases s; cases "tl s"; cases "tl (tl s)") (auto simp: lead_def numeral_3_eq_3)
  have eq: "rx False r ([], s) = rx False (Seq (map Opt rs)) ([], s3)"
    by (simp add: r s canon_False)
  have "([], s3) \<in> set (rx False (Seq (map Opt rs)) ([], s3))" by (rule rx_Opts_nonempty)
  then obtain st others where ne: "rx False (Seq (map Opt rs)) ([], s3) = st # others"
    by (cases "rx False (Seq (map Opt rs)) ([], s3)") auto
  then have "st \<in> set (rx False (Seq (map Opt rs)) ([], s3))" by simp
  from rx_suffix [OF this] have "length (snd st) \<le> length s3" by auto
  with eq ne s show ?thesis by (cases st) auto
qed

lemma remove_lead:
  assumes "fence_like r"
  shows "0 < n \<Longrightarrow> n \<le> 3 \<Longrightarrow> \<not> lead n s \<Longrightarrow> \<not> lead n (rx_remove False r s)"
proof (induction n arbitrary: s)
  case 0
  then show ?case by simp
next
  case (Suc n)
  have no3: "\<not> lead 3 s" using Suc.prems lead_mono [of 3 s "Suc n"] by blast
  show ?case
  proof (cases s)
    case Nil
    with fence_like_nomatch [OF assms no3] show ?thesis
      by (simp add: rx_remove_Nil lead_simps)
  next
    case (Cons c cs)
    with fence_like_nomatch [OF assms no3]
    have step: "rx_remove False r s = c # rx_remove False r cs" by (simp add: rx_remove_skip)
    show ?thesis
    proof (cases "c = bt")
      case False
      with step show ?thesis by (simp add: lead_simps)
    next
      case True
      with Suc.prems Cons have n: "\<not> lead n cs" by (simp add: lead_simps)
      then have "0 < n" by (cases n) (auto simp: lead_simps)
      with Suc.IH [of cs] Suc.prems n have "\<not> lead n (rx_remove False r cs)" by simp
      with step show ?thesis by (simp add: lead_simps)
    qed
  qed
qed

lemma remove_fenceFree:
  assumes "fence_like r"
  shows "fenceFree (rx_remove False r s)"
proof (induction "length s" arbitrary: s rule: less_induct)
  case less
  show ?case
  proof (cases "lead 3 s")
    case True
    from fence_like_match [OF assms True] obtain caps rest others where
      m: "rx False r ([], s) = (caps, rest) # others" "length rest < length s" by blast
    from rx_remove_here [OF m] less [OF m(2)] show ?thesis by simp
  next
    case False
    show ?thesis
    proof (cases s)
      case Nil
      with fence_like_nomatch [OF assms False] show ?thesis by (simp add: rx_remove_Nil)
    next
      case (Cons c cs)
      with fence_like_nomatch [OF assms False]
      have step: "rx_remove False r s = c # rx_remove False r cs" by (simp add: rx_remove_skip)
      have "\<not> lead 3 (rx_remove False r s)"
        using remove_lead [OF assms, of 3 s] False by simp
       moreover have "fenceFree (rx_remove False r cs)" using less [of cs] Cons by simp
      ultimately show ?thesis using step by (simp add: startsWith_lead)
    qed
  qed
qed

lemma remove_id:
  assumes "fence_like r"
  shows "fenceFree s \<Longrightarrow> rx_remove False r s = s"
proof (induction s)
  case Nil
  have "\<not> lead 3 []" by (simp add: lead_def numeral_3_eq_3)
  from fence_like_nomatch [OF assms this] show ?case by (simp add: rx_remove_Nil)
next
  case (Cons c cs)
  then have "\<not> lead 3 (c # cs)" by (simp add: startsWith_lead)
  from fence_like_nomatch [OF assms this] Cons show ?case by (simp add: rx_remove_skip)
qed

lemma fence_like_fencePattern: "fence_like fencePattern"
  unfolding fence_like_def fencePattern_def
  by (rule exI [of _ "[Alt [Str ''javascript'', Str ''typescript'', Str ''js'', Str ''ts''], Chr NL]"]) simp

lemma fence_like_barePattern: "fence_like barePattern"
  unfolding fence_like_def barePattern_def
  by (rule exI [of _ "[Chr NL]"]) simp

lemma lead3_append: "lead 3 xs \<Longrightarrow> lead 3 (xs @ ys)"
proof -
  assume a: "lead 3 xs"
  then have "length (take 3 xs) = length (replicate 3 bt)" by (simp only: lead_def)
  then have "3 \<le> length xs" by simp
  with a show ?thesis by (simp add: lead_def)
qed

lemma fenceFree_prefix: "fenceFree (xs @ ys) \<Longrightarrow> fenceFree xs"
proof (induction xs)
  case Nil
  show ?case by simp
next
  case (Cons c xs)
  from Cons.prems have "\<not> lead 3 ((c # xs) @ ys)" "fenceFree (xs @ ys)"
    by (simp_all add: startsWith_lead)
  with lead3_append [of "c # xs" ys] Cons.IH show ?case
    by (auto simp: startsWith_lead)
qed

lemma fenceFree_suffix: "fenceFree (xs @ ys) \<Longrightarrow> fenceFree ys"
  by (induction xs) simp_all

lemma rev_split: "t = rev (dropWhile P (rev t)) @ rev (takeWhile P (rev t))"
proof -
  have "rev (rev t) = rev (takeWhile P (rev t) @ dropWhile P (rev t))" by simp
  then show ?thesis by (simp only: rev_append rev_rev_ident)
qed

lemma trim_split: "dropWhile isWhite s = trim s @ rev (takeWhile isWhite (rev (dropWhile isWhite s)))"
  unfolding trim_def by (rule rev_split)

lemma trim_parts: "\<exists>pre post. s = pre @ trim s @ post"
proof -
  have "s = takeWhile isWhite s @ dropWhile isWhite s" by simp
  also have "\<dots> = takeWhile isWhite s @ trim s @ rev (takeWhile isWhite (rev (dropWhile isWhite s)))"
    using trim_split [of s] by simp
  finally show ?thesis by blast
qed

lemma fenceFree_trim: "fenceFree s \<Longrightarrow> fenceFree (trim s)"
proof -
  assume a: "fenceFree s"
  from trim_parts [of s] obtain pre post where "s = pre @ trim s @ post" by blast
  with a have "fenceFree (pre @ trim s @ post)" by simp
  then have "fenceFree (trim s @ post)" by (rule fenceFree_suffix)
  then show ?thesis by (rule fenceFree_prefix)
qed

lemma trim_head: "trim s \<noteq> [] \<Longrightarrow> \<not> isWhite (hd (trim s))"
proof -
  assume ne: "trim s \<noteq> []"
  let ?t = "dropWhile isWhite s"
  have "?t \<noteq> []"
  proof
    assume "?t = []"
    then have "trim s = []" by (simp only: trim_def) simp
    with ne show False by simp
  qed
  then have "\<not> isWhite (hd ?t)" by (rule hd_dropWhile)
  moreover from arg_cong [OF trim_split [of s], of hd] ne have "hd ?t = hd (trim s)" by simp
  ultimately show ?thesis by simp
qed

lemma trim_idem: "trim (trim s) = trim s"
proof -
  have "dropWhile isWhite (trim s) = trim s"
  proof (cases "trim s")
    case Nil
    then show ?thesis by simp
  next
    case (Cons c cs)
    with trim_head [of s] show ?thesis by simp
  qed
  then have "trim (trim s) = rev (dropWhile isWhite (rev (trim s)))" by (simp add: trim_def)
  also have "\<dots> = trim s" by (simp add: trim_def)
  finally show ?thesis .
qed

text \<open>
  Claim C9. Stripping the markdown fences is idempotent: \<open>cleanGeneratedCode\<close> applied to
  its own result returns it unchanged, for every text.
\<close>

theorem cleanGeneratedCode_idempotent:
  "cleanGeneratedCode (cleanGeneratedCode s) = cleanGeneratedCode s"
proof -
  let ?a = "rx_remove False fencePattern s"
  have a: "fenceFree ?a" by (rule remove_fenceFree [OF fence_like_fencePattern])
  have b: "rx_remove False barePattern ?a = ?a" by (rule remove_id [OF fence_like_barePattern a])
  have c: "cleanGeneratedCode s = trim ?a" by (simp add: cleanGeneratedCode_def b)
  have d: "fenceFree (trim ?a)" by (rule fenceFree_trim [OF a])
  have "cleanGeneratedCode (trim ?a) = trim (trim ?a)"
    by (simp add: cleanGeneratedCode_def remove_id [OF fence_like_fencePattern d]
          remove_id [OF fence_like_barePattern d])
  with c show ?thesis by (simp add: trim_idem)
qed

section \<open>The URL bypass of the code generators\<close>

text \<open>
  Claim C1. For every test case whose test data holds a URL (a \<open>url\<close> that is not empty),
  \<open>generateCypressCode\<close> and \<open>generatePlaywrightCode\<close> return the URL template of their
  framework and send no request, whatever the environment: the result is the same with
  a remote capability that answers, that is not configured, or that fails.
\<close>

theorem url_bypass:
  "testData tc = Some td \<Longrightarrow> url td = Some u \<Longrightarrow> u \<noteq> [] \<Longrightarrow>
     generateCypressCode e tc = (Inr (generateCypressCodeForURL tc td), [])
     \<and> generatePlaywrightCode e tc = (Inr (generatePlaywrightCodeForURL tc td), [])
     \<and> generateCypressCode e tc = generateCypressCode e' tc
     \<and> generatePlaywrightCode e tc = generatePlaywrightCode e' tc"
  by (simp add: generateCypressCode_def generatePlaywrightCode_def urlData_def)

theorem url_bypass_witness:
  "generateCypressCode offline (hd (generateLoginTestCasesForURL exampleData))
     = (Inr (generateCypressCodeForURL (hd (generateLoginTestCasesForURL exampleData)) exampleData), [])
   \<and> generatePlaywrightCode offline (hd (generateLoginTestCasesForURL exampleData))
     = (Inr (generatePlaywrightCodeForURL (hd (generateLoginTestCasesForURL exampleData)) exampleData), [])"
  using url_bypass [of "hd (generateLoginTestCasesForURL exampleData)" exampleData
      "''https://example.com/login''" offline offline]
  by (simp add: generateLoginTestCasesForURL_def exampleData_def)

section \<open>The remote analysis and its fallback\<close>

lemma bind_Inr_iff: "bind r f = Inr y \<longleftrightarrow> (\<exists>x. r = Inr x \<and> f x = Inr y)"
  by (cases r) auto

lemma not_isl_iff: "\<not> isl r \<longleftrightarrow> (\<exists>y. r = Inr y)"
  by (cases r) auto

lemma stampTestCases_ok:
  "(\<exists>y. stampTestCases a = Inr y) \<longleftrightarrow>
     (\<exists>kvs xs. a = JObj kvs \<and> map_of kvs ''testCases'' = Some (JArr xs))"
  by (cases a) (auto simp: stampTestCases_def split: option.splits json.splits jsval.splits)

lemma callOpenAIWithModel_ok:
  "fst (callOpenAIWithModel e p sp m) = Inr content \<longleftrightarrow>
     truthy (openaiApiKey e)
     \<and> (\<exists>resp data choices choice message.
          fetch e \<lparr>endpoint = openaiEndpoint, authorization = ''Bearer '' @ tpl (openaiApiKey e),
                   model = m, systemContent = sp, userContent = p\<rparr> = Responded resp
          \<and> ok resp \<and> json_body resp = Some data
          \<and> getProp (Val data) ''choices'' = Inr choices
          \<and> getProp choices ''0'' = Inr choice
          \<and> getProp choice ''message'' = Inr message
          \<and> getProp message ''content'' = Inr content)"
  by (auto simp: callOpenAIWithModel_def Let_def bind_Inr_iff split: fetch_result.splits option.splits)

lemma remoteAnalysis_fst:
  "fst (remoteAnalysis e prd) =
     bind (fst (callOpenAIWithModel e (analysisPrompt prd) analysisSystemPrompt (selectedModel e)))
       (\<lambda>response. case JSON_parse e response of None \<Rightarrow> Inl SyntaxError | Some a \<Rightarrow> stampTestCases a)"
  by (simp add: remoteAnalysis_def split: prod.splits)

lemma answerOf_Some:
  "answerOf e body = Some a \<longleftrightarrow>
     (\<exists>data choices choice message content.
        body = Some data
        \<and> getProp (Val data) ''choices'' = Inr choices
        \<and> getProp choices ''0'' = Inr choice
        \<and> getProp choice ''message'' = Inr message
        \<and> getProp message ''content'' = Inr content
        \<and> JSON_parse e content = Some a)"
proof
  assume h: "answerOf e body = Some a"
  then obtain data where d: "body = Some data"
    by (cases body) (auto simp: answerOf_def)
  let ?r = "bind (getProp (Val data) ''choices'') (\<lambda>choices.
              bind (getProp choices ''0'') (\<lambda>choice.
              bind (getProp choice ''message'') (\<lambda>message.
              getProp message ''content'')))"
  from h d obtain content where c: "?r = Inr content" and p: "JSON_parse e content = Some a"
    by (cases ?r) (auto simp: answerOf_def)
  from c obtain choices choice message where
    "getProp (Val data) ''choices'' = Inr choices"
    "getProp choices ''0'' = Inr choice"
    "getProp choice ''message'' = Inr message"
    "getProp message ''content'' = Inr content"
    unfolding bind_Inr_iff by blast
  with d p show "\<exists>data choices choice message content.
        body = Some data
        \<and> getProp (Val data) ''choices'' = Inr choices
        \<and> getProp choices ''0'' = Inr choice
        \<and> getProp choice ''message'' = Inr message
        \<and> getProp message ''content'' = Inr content
        \<and> JSON_parse e content = Some a"
    by blast
next
  assume "\<exists>data choices choice message content.
        body = Some data
        \<and> getProp (Val data) ''choices'' = Inr choices
        \<and> getProp choices ''0'' = Inr choice
        \<and> getProp choice ''message'' = Inr message
        \<and> getProp message ''content'' = Inr content
        \<and> JSON_parse e content = Some a"
  then show "answerOf e body = Some a"
    by (auto simp: answerOf_def)
qed

lemma remoteAnalysis_succeeds_iff:
  "(\<exists>a. fst (remoteAnalysis e prd) = Inr a) \<longleftrightarrow>
     truthy (openaiApiKey e)
     \<and> \<not> transportFailed (fetch e (analysisRequest e prd))
     \<and> (\<exists>kvs xs. answerOf e (bodyOf (fetch e (analysisRequest e prd))) = Some (JObj kvs)
                  \<and> map_of kvs ''testCases'' = Some (JArr xs))"
proof
  assume "\<exists>a. fst (remoteAnalysis e prd) = Inr a"
  then obtain a content where
    c: "fst (callOpenAIWithModel e (analysisPrompt prd) analysisSystemPrompt (selectedModel e)) = Inr content"
    and p: "(case JSON_parse e content of None \<Rightarrow> Inl SyntaxError | Some a \<Rightarrow> stampTestCases a) = Inr a"
    unfolding remoteAnalysis_fst bind_Inr_iff by blast
  from p obtain parsed where p1: "JSON_parse e content = Some parsed" and p2: "stampTestCases parsed = Inr a"
    by (cases "JSON_parse e content") auto
  from p2 stampTestCases_ok [of parsed]
  obtain kvs xs where k: "parsed = JObj kvs" "map_of kvs ''testCases'' = Some (JArr xs)"
    by blast
  from c [unfolded callOpenAIWithModel_ok] obtain resp data choices choice message where
    r: "truthy (openaiApiKey e)"
       "fetch e (analysisRequest e prd) = Responded resp" "ok resp" "json_body resp = Some data"
       "getProp (Val data) ''choices'' = Inr choices"
       "getProp choices ''0'' = Inr choice"
       "getProp choice ''message'' = Inr message"
       "getProp message ''content'' = Inr content"
    by (auto simp: analysisRequest_def)
  from r p1 k have "answerOf e (bodyOf (fetch e (analysisRequest e prd))) = Some (JObj kvs)"
    unfolding answerOf_Some by (simp add: bodyOf_def)
  with r k show "truthy (openaiApiKey e)
     \<and> \<not> transportFailed (fetch e (analysisRequest e prd))
     \<and> (\<exists>kvs xs. answerOf e (bodyOf (fetch e (analysisRequest e prd))) = Some (JObj kvs)
                  \<and> map_of kvs ''testCases'' = Some (JArr xs))"
    by (auto simp: transportFailed_def)
next
  assume a: "truthy (openaiApiKey e)
     \<and> \<not> transportFailed (fetch e (analysisRequest e prd))
     \<and> (\<exists>kvs xs. answerOf e (bodyOf (fetch e (analysisRequest e prd))) = Some (JObj kvs)
                  \<and> map_of kvs ''testCases'' = Some (JArr xs))"
  then obtain resp where r: "fetch e (analysisRequest e prd) = Responded resp" "ok resp"
    by (auto simp: transportFailed_def split: fetch_result.splits)
  from a obtain kvs xs where
    k: "answerOf e (bodyOf (fetch e (analysisRequest e prd))) = Some (JObj kvs)"
       "map_of kvs ''testCases'' = Some (JArr xs)"
    by blast
  from k(1) [unfolded answerOf_Some] r obtain data choices choice message content where
    s: "json_body resp = Some data"
       "getProp (Val data) ''choices'' = Inr choices"
       "getProp choices ''0'' = Inr choice"
       "getProp choice ''message'' = Inr message"
       "getProp message ''content'' = Inr content"
       "JSON_parse e content = Some (JObj kvs)"
    by (auto simp: bodyOf_def)
  have "fst (callOpenAIWithModel e (analysisPrompt prd) analysisSystemPrompt (selectedModel e)) = Inr content"
    unfolding callOpenAIWithModel_ok using a r s by (auto simp: analysisRequest_def)
  moreover from k stampTestCases_ok [of "JObj kvs"] obtain y where "stampTestCases (JObj kvs) = Inr y"
    by blast
  ultimately show "\<exists>a. fst (remoteAnalysis e prd) = Inr a"
    using s by (simp add: remoteAnalysis_fst)
qed

lemma expectedShape_testCases:
  "expectedShape a \<Longrightarrow> \<exists>kvs xs. a = JObj kvs \<and> map_of kvs ''testCases'' = Some (JArr xs)"
  by (cases a) (auto simp: expectedShape_def isArrayAt_def split: option.splits json.splits)

text \<open>
  Claim C2, as amended. The remote analysis fails exactly when no credential is configured,
  or the transport reports no success (\<open>fetch\<close> rejects, or the response is not \<open>ok\<close>), or
  the body of the response carries no answer that is an object whose \<open>testCases\<close> is an
  array: the body is not JSON, or \<open>choices[0].message.content\<close> cannot be read in it, or
  that content is not JSON text, or what it parses to is not such an object. Of the
  expected shape only \<open>testCases\<close> is looked at: an answer of the expected shape does not
  fail, and neither does one that lacks \<open>features\<close>, \<open>userStories\<close> or
  \<open>acceptanceCriteria\<close>. The remote client has no fallback: an error of
  \<open>callOpenAIWithModel\<close> is the error of the remote analysis. \<open>analyzePRD\<close> catches it: for
  every text and every environment it returns an analysis, and when the text names no URL
  and the remote analysis fails, that analysis is the one of \<open>analyzePRDFallback\<close>.
\<close>

theorem remote_failure_and_fallback:
  "(isl (fst (remoteAnalysis e prd)) \<longleftrightarrow>
      \<not> truthy (openaiApiKey e)
      \<or> transportFailed (fetch e (analysisRequest e prd))
      \<or> \<not> (\<exists>kvs xs. answerOf e (bodyOf (fetch e (analysisRequest e prd))) = Some (JObj kvs)
                      \<and> map_of kvs ''testCases'' = Some (JArr xs)))
   \<and> (\<forall>a. truthy (openaiApiKey e)
           \<and> \<not> transportFailed (fetch e (analysisRequest e prd))
           \<and> answerOf e (bodyOf (fetch e (analysisRequest e prd))) = Some a
           \<and> expectedShape a
         \<longrightarrow> \<not> isl (fst (remoteAnalysis e prd)))
   \<and> (\<forall>err. fst (callOpenAIWithModel e (analysisPrompt prd) analysisSystemPrompt (selectedModel e)) = Inl err
         \<longrightarrow> fst (remoteAnalysis e prd) = Inl err)
   \<and> (\<exists>a. fst (analyzePRD e prd) = Inr a)
   \<and> (parseTestDataFromPRD prd = None \<and> isl (fst (remoteAnalysis e prd))
         \<longrightarrow> fst (analyzePRD e prd) = Inr (Local (analyzePRDFallback prd)))"
proof (intro conjI allI impI)
  show "isl (fst (remoteAnalysis e prd)) \<longleftrightarrow>
      \<not> truthy (openaiApiKey e)
      \<or> transportFailed (fetch e (analysisRequest e prd))
      \<or> \<not> (\<exists>kvs xs. answerOf e (bodyOf (fetch e (analysisRequest e prd))) = Some (JObj kvs)
                      \<and> map_of kvs ''testCases'' = Some (JArr xs))"
    using remoteAnalysis_succeeds_iff [of e prd] not_isl_iff [of "fst (remoteAnalysis e prd)"]
    by blast
next
  fix a
  assume h: "truthy (openaiApiKey e)
           \<and> \<not> transportFailed (fetch e (analysisRequest e prd))
           \<and> answerOf e (bodyOf (fetch e (analysisRequest e prd))) = Some a
           \<and> expectedShape a"
  then obtain kvs xs where "a = JObj kvs" "map_of kvs ''testCases'' = Some (JArr xs)"
    using expectedShape_testCases [of a] by blast
  with h have "\<exists>a. fst (remoteAnalysis e prd) = Inr a"
    unfolding remoteAnalysis_succeeds_iff by blast
  then show "\<not> isl (fst (remoteAnalysis e prd))"
    unfolding not_isl_iff .
next
  fix err
  assume "fst (callOpenAIWithModel e (analysisPrompt prd) analysisSystemPrompt (selectedModel e)) = Inl err"
  then show "fst (remoteAnalysis e prd) = Inl err" by (simp add: remoteAnalysis_fst)
next
  show "\<exists>a. fst (analyzePRD e prd) = Inr a"
    by (auto simp: analyzePRD_def split: option.splits prod.splits sum.splits)
next
  assume "parseTestDataFromPRD prd = None \<and> isl (fst (remoteAnalysis e prd))"
  then show "fst (analyzePRD e prd) = Inr (Local (analyzePRDFallback prd))"
    by (auto simp: analyzePRD_def urlData_def split: option.splits prod.splits sum.splits)
qed

theorem remote_failure_and_fallback_witness:
  "fst (analyzePRD keyedButDown ''Users should be able to search for products'')
     = Inr (Local (analyzePRDFallback ''Users should be able to search for products''))
   \<and> map id' (generateTestCasesFallback ''Users should be able to search for products'')
     = [''search-001'']"
proof -
  let ?prd = "''Users should be able to search for products''"
  have p: "parseTestDataFromPRD ?prd = None" by code_simp
  have t: "transportFailed (fetch keyedButDown (analysisRequest keyedButDown ?prd))"
    by (simp add: keyedButDown_def transportFailed_def)
  from remote_failure_and_fallback [of keyedButDown ?prd] t
  have "isl (fst (remoteAnalysis keyedButDown ?prd))" by blast
  with remote_failure_and_fallback [of keyedButDown ?prd] p
  have "fst (analyzePRD keyedButDown ?prd) = Inr (Local (analyzePRDFallback ?prd))" by blast
  moreover have "map id' (generateTestCasesFallback ?prd) = [''search-001'']" by code_simp
  ultimately show ?thesis by simp
qed

text \<open>
  The claim as stated fails: an answer whose only property is \<open>testCases\<close>, an array of
  one test case, has no \<open>features\<close>, no \<open>userStories\<close> and no \<open>acceptanceCriteria\<close>, so
  it is not of the expected shape; a credential is configured and the transport reports
  success; and the remote analysis does not fail: it returns that object with its test
  case stamped, and \<open>analyzePRD\<close> returns it.
\<close>

theorem remote_accepts_thin_answer_counterexample:
  "truthy (openaiApiKey thinAnswer)
   \<and> \<not> transportFailed (fetch thinAnswer (analysisRequest thinAnswer ''Users can pay by card''))
   \<and> answerOf thinAnswer (bodyOf (fetch thinAnswer (analysisRequest thinAnswer ''Users can pay by card'')))
       = Some (JObj [(''testCases'', JArr [JObj [(''id'', JStr ''t1'')]])])
   \<and> \<not> expectedShape (JObj [(''testCases'', JArr [JObj [(''id'', JStr ''t1'')]])])
   \<and> fst (remoteAnalysis thinAnswer ''Users can pay by card'')
       = Inr (JObj [(''testCases'', JArr [JObj [(''id'', JStr ''t1''), (''status'', JStr ''pending'')]])])
   \<and> fst (analyzePRD thinAnswer ''Users can pay by card'')
       = Inr (Remote (JObj [(''testCases'', JArr [JObj [(''id'', JStr ''t1''), (''status'', JStr ''pending'')]])]))"
proof -
  let ?prd = "''Users can pay by card''"
  have p: "parseTestDataFromPRD ?prd = None" by code_simp
  have k: "truthy (openaiApiKey thinAnswer)" by (simp add: thinAnswer_def)
  have t: "\<not> transportFailed (fetch thinAnswer (analysisRequest thinAnswer ?prd))"
    by (simp add: thinAnswer_def transportFailed_def)
  have a: "answerOf thinAnswer (bodyOf (fetch thinAnswer (analysisRequest thinAnswer ?prd)))
       = Some (JObj [(''testCases'', JArr [JObj [(''id'', JStr ''t1'')]])])"
    by (simp add: thinAnswer_def bodyOf_def answerOf_def)
  have s: "\<not> expectedShape (JObj [(''testCases'', JArr [JObj [(''id'', JStr ''t1'')]])])"
    by (simp add: expectedShape_def isArrayAt_def)
  have c: "fst (callOpenAIWithModel thinAnswer (analysisPrompt ?prd) analysisSystemPrompt (selectedModel thinAnswer))
             = Inr (Val (JStr thinAnswerText))"
    by (simp add: callOpenAIWithModel_def thinAnswer_def Let_def)
  have r: "fst (remoteAnalysis thinAnswer ?prd)
       = Inr (JObj [(''testCases'', JArr [JObj [(''id'', JStr ''t1''), (''status'', JStr ''pending'')]])])"
    unfolding remoteAnalysis_fst c
    by (simp add: thinAnswer_def stampTestCases_def stampPending_def)
  from r p have "fst (analyzePRD thinAnswer ?prd)
       = Inr (Remote (JObj [(''testCases'', JArr [JObj [(''id'', JStr ''t1''), (''status'', JStr ''pending'')]])]))"
    by (cases "remoteAnalysis thinAnswer ?prd") (simp add: analyzePRD_def urlData_def)
  with k t a s r show ?thesis by simp
qed

section \<open>The files written\<close>





lemma split_on_nonempty: "split_on sep s \<noteq> []"
  by (induction s) (auto split: list.splits)

lemma split_on_append:
  "split_on sep (a @ sep # b) = split_on sep a @ split_on sep b"
proof (induction a)
  case Nil
  show ?case by simp
next
  case (Cons c a)
  obtain l ls where "split_on sep a = l # ls"
    using split_on_nonempty [of sep a] by (cases "split_on sep a") auto
  with Cons show ?case by simp
qed

lemma split_on_single: "sep \<notin> set b \<Longrightarrow> split_on sep b = [b]"
  by (induction b) auto

text \<open>
  On segments that normalisation leaves as they are, the instance of \<open>URI.joinPath\<close> joins
  with \<open>/\<close>; the workspace folder may be the root \<open>/\<close> (no segment).
\<close>

lemma join_Cons: "xs \<noteq> [] \<Longrightarrow> join sep (x # xs) = x @ sep @ join sep xs"
  by (cases xs) simp_all

lemma join_append: "xs \<noteq> [] \<Longrightarrow> ys \<noteq> [] \<Longrightarrow> join sep (xs @ ys) = join sep xs @ sep @ join sep ys"
proof (induction xs)
  case Nil
  then show ?case by simp
next
  case (Cons x xs)
  show ?case
  proof (cases "xs = []")
    case True
    with Cons.prems show ?thesis by (simp add: join_Cons)
  next
    case False
    with Cons have "join sep (xs @ ys) = join sep xs @ sep @ join sep ys" by simp
    moreover from False have "join sep (x # xs @ ys) = x @ sep @ join sep (xs @ ys)"
      by (simp add: join_Cons)
    moreover from False have "join sep (x # xs) = x @ sep @ join sep xs" by (simp add: join_Cons)
    ultimately show ?thesis by simp
  qed
qed

lemma split_join:
  "xs \<noteq> [] \<Longrightarrow> \<forall>x \<in> set xs. sep \<notin> set x \<Longrightarrow> split_on sep (join [sep] xs) = xs"
proof (induction xs)
  case Nil
  then show ?case by simp
next
  case (Cons x xs)
  show ?case
  proof (cases "xs = []")
    case True
    with Cons.prems show ?thesis by (simp add: split_on_single)
  next
    case False
    then have "join [sep] (x # xs) = x @ sep # join [sep] xs" by (simp add: join_Cons)
    with Cons False show ?thesis by (simp add: split_on_append split_on_single)
  qed
qed

lemma normalizeString_plain:
  "\<forall>s \<in> set ss. plainSegment s \<Longrightarrow> normalizeString b res ss = res @ ss"
  by (induction ss arbitrary: res) (auto simp: plainSegment_def)

lemma join_last:
  "xs \<noteq> [] \<Longrightarrow> last xs \<noteq> [] \<Longrightarrow> join sep xs \<noteq> [] \<and> last (join sep xs) = last (last xs)"
proof (induction xs)
  case Nil
  then show ?case by simp
next
  case (Cons x xs)
  show ?case
  proof (cases "xs = []")
    case True
    with Cons.prems show ?thesis by simp
  next
    case False
    with Cons have "join sep xs \<noteq> [] \<and> last (join sep xs) = last (last xs)" by simp
    with False show ?thesis by (simp add: join_Cons)
  qed
qed

lemma posix_joinPath_plain:
  assumes "\<forall>s \<in> set (segs @ ts). plainSegment s" and "ts \<noteq> []"
  shows "posix_joinPath (''/'' @ join ''/'' segs) ts = ''/'' @ join ''/'' (segs @ ts)"
proof -
  let ?root = "''/'' @ join ''/'' segs"
  let ?path = "?root @ ''/'' @ join ''/'' ts"
  from assms have ne: "\<forall>s \<in> set ts. s \<noteq> []" and ns: "\<forall>s \<in> set ts. CHR ''/'' \<notin> set s"
    and ps: "\<forall>s \<in> set segs. CHR ''/'' \<notin> set s"
    by (auto simp: plainSegment_def)
  from ne have f: "filter (\<lambda>arg. arg \<noteq> []) (?root # ts) = ?root # ts" by simp
  have j: "join ''/'' (?root # ts) = ?path" using assms(2) by (simp add: join_Cons)
  from assms(2) ne have lt: "last ts \<noteq> []" by simp
  from join_last [OF assms(2) lt, of "''/''"]
  have jl: "join ''/'' ts \<noteq> []" "last (join ''/'' ts) = last (last ts)" by simp_all
  from assms(2) have "last ts \<in> set ts" by simp
  with ns have "CHR ''/'' \<notin> set (last ts)" by blast
  moreover from lt have "last (last ts) \<in> set (last ts)" by simp
  ultimately have "last (last ts) \<noteq> CHR ''/''" by auto
  with jl have trailing: "last ?path \<noteq> CHR ''/''" by simp
  have sp: "split_on CHR ''/'' ?path
              = [] # (if segs = [] then [[]] else segs) @ ts"
  proof -
    have "?path = CHR ''/'' # (join ''/'' segs @ CHR ''/'' # join ''/'' ts)" by simp
    moreover have "split_on CHR ''/'' (CHR ''/'' # (join ''/'' segs @ CHR ''/'' # join ''/'' ts))
                 = [] # split_on CHR ''/'' (join ''/'' segs) @ split_on CHR ''/'' (join ''/'' ts)"
      by (simp add: split_on_append)
    ultimately have "split_on CHR ''/'' ?path
                 = [] # split_on CHR ''/'' (join ''/'' segs) @ split_on CHR ''/'' (join ''/'' ts)"
      by (simp only:)
    moreover have "split_on CHR ''/'' (join ''/'' ts) = ts"
      using split_join [OF assms(2) ns] by simp
    moreover have "split_on CHR ''/'' (join ''/'' segs) = (if segs = [] then [[]] else segs)"
      using split_join [of segs "CHR ''/''"] ps by simp
    ultimately show ?thesis by simp
  qed
  have n: "normalizeString False [] (split_on CHR ''/'' ?path) = segs @ ts"
    unfolding sp using normalizeString_plain [OF assms(1), of False "[]"]
    by (cases "segs = []") simp_all
  from assms(2) have st: "segs @ ts \<noteq> []" by simp
  from assms(1) assms(2) lt have "last (segs @ ts) \<noteq> []" by simp
  from join_last [OF st this, of "''/''"] have pne: "join ''/'' (segs @ ts) \<noteq> []" by simp
  have "posix_normalize ?path = ''/'' @ join ''/'' (segs @ ts)"
    using n pne trailing by (simp add: posix_normalize_def Let_def)
  with f j show ?thesis
    by (simp add: posix_joinPath_def posix_join_def Let_def)
qed














end
